theory Spec2Isabelle
  imports Main "HOL-Library.List_Lexorder" "HOL-Library.Multiset"
begin

section \<open>Strings\<close>

text \<open>
  The console of the portfolio site is written in JavaScript
  (\<^verbatim>\<open>src/js/console/CommandParser.js\<close> and the class \<^verbatim>\<open>VirtualFileSystem\<close> in
  \<^verbatim>\<open>src/js/console/ConsoleMode.js\<close>).  A JavaScript string is a sequence of UTF-16 code
  units.  The model takes a code unit as a natural number (a code unit is one below 65536;
  the code computes nothing with code units, so the bound is nowhere needed) and a string
  as the list of its code units, so \<^verbatim>\<open>length\<close>, \<^verbatim>\<open>indexOf\<close>, \<^verbatim>\<open>substring\<close> and
  \<^verbatim>\<open>repeat\<close> count what the source's operations count, and a regular expression without
  the flag \<^verbatim>\<open>u\<close> reads one code unit at a time.  \<^verbatim>\<open>js\<close> gives the string of a literal of ASCII characters; the
  characters outside ASCII that the source names (the em dash of the slug function, the
  box-drawing characters of the tree view, the bullet and the arrows of the static texts)
  are given by their code unit.  Private methods lose their leading underscore, which an
  Isabelle name cannot start with.
\<close>

type_synonym codeunit = nat

type_synonym jstring = "codeunit list"

definition js :: "string \<Rightarrow> jstring" where
  "js s = map of_char s"

lemma js_Nil [simp]: "js [] = []"
  by (simp add: js_def)

lemma js_Cons [simp]: "js (c # cs) = of_char c # js cs"
  by (simp add: js_def)

text \<open>
  Two operations that the source calls are tables of the engine it runs in:
  \<^verbatim>\<open>String.prototype.toLowerCase\<close> follows the case mappings of the engine's version of
  Unicode (a character may change into two code units), and
  \<^verbatim>\<open>String.prototype.localeCompare\<close>, called with no locale, follows the collation of the
  default locale of the engine.  Both are parameters of the model, the fields of the record
  \<^verbatim>\<open>runtime\<close>, so what is proved for every runtime holds in each engine and each locale.
\<close>

record runtime =
  toLowerCase :: "jstring \<Rightarrow> jstring"
  localeCompare :: "jstring \<Rightarrow> jstring \<Rightarrow> int"

definition isSpace :: "codeunit \<Rightarrow> bool" where
  \<comment> \<open>\<^verbatim>\<open>WhiteSpace\<close> and \<^verbatim>\<open>LineTerminator\<close> of ECMAScript, which \<^verbatim>\<open>trim\<close> strips, the
      class \<^verbatim>\<open>\s\<close> matches and \<^verbatim>\<open>parseInt\<close> skips: tab, line feed, vertical tab, form
      feed, carriage return, space, no-break space, the space separators of Unicode,
      the line and the paragraph separator, and the byte order mark\<close>
  "isSpace c =
     (c \<in> set [0x09, 0x0A, 0x0B, 0x0C, 0x0D, 0x20, 0xA0, 0x1680, 0x2028, 0x2029, 0x202F,
                0x205F, 0x3000, 0xFEFF]
      \<or> (0x2000 \<le> c \<and> c \<le> 0x200A))"

definition isDigit :: "codeunit \<Rightarrow> bool" where
  "isDigit c = (c \<in> set (js ''0123456789''))"

definition trim :: "jstring \<Rightarrow> jstring" where
  "trim s = rev (dropWhile isSpace (rev (dropWhile isSpace s)))"

definition startsWith :: "jstring \<Rightarrow> jstring \<Rightarrow> bool" where
  \<comment> \<open>\<^verbatim>\<open>s.startsWith(p)\<close>\<close>
  "startsWith p s = (take (length p) s = p)"

definition endsWith :: "jstring \<Rightarrow> jstring \<Rightarrow> bool" where
  \<comment> \<open>\<^verbatim>\<open>s.endsWith(p)\<close>\<close>
  "endsWith p s = (length p \<le> length s \<and> drop (length s - length p) s = p)"

fun includes_str :: "jstring \<Rightarrow> jstring \<Rightarrow> bool" where
  \<comment> \<open>\<^verbatim>\<open>s.includes(p)\<close>\<close>
  "includes_str p [] = (p = [])"
| "includes_str p (c # cs) = (startsWith p (c # cs) \<or> includes_str p cs)"

fun indexOf :: "jstring \<Rightarrow> jstring \<Rightarrow> nat option" where
  \<comment> \<open>\<^verbatim>\<open>s.indexOf(p)\<close>; \<^verbatim>\<open>-1\<close> is \<^term>\<open>None\<close>\<close>
  "indexOf p [] = (if p = [] then Some 0 else None)"
| "indexOf p (c # cs) =
     (if startsWith p (c # cs) then Some 0 else map_option Suc (indexOf p cs))"

definition substring :: "jstring \<Rightarrow> nat \<Rightarrow> nat \<Rightarrow> jstring" where
  \<comment> \<open>\<^verbatim>\<open>s.substring(a, b)\<close> for \<^verbatim>\<open>a <= b\<close>, as every call of the source has it\<close>
  "substring s a b = take (b - a) (drop a s)"

fun split_on :: "codeunit \<Rightarrow> jstring \<Rightarrow> jstring list" where
  \<comment> \<open>\<^verbatim>\<open>s.split(c)\<close> for a separator of one character: never the empty list\<close>
  "split_on c [] = [[]]"
| "split_on c (x # xs) =
     (if x = c then [] # split_on c xs
      else (case split_on c xs of
              [] \<Rightarrow> [[x]]
            | w # ws \<Rightarrow> (x # w) # ws))"

fun join :: "jstring \<Rightarrow> jstring list \<Rightarrow> jstring" where
  \<comment> \<open>\<^verbatim>\<open>xs.join(sep)\<close>\<close>
  "join sep [] = []"
| "join sep [x] = x"
| "join sep (x # y # ys) = x @ sep @ join sep (y # ys)"

fun show_nat :: "nat \<Rightarrow> jstring" where
  \<comment> \<open>a number in a template string: its decimal digits\<close>
  "show_nat n =
     (if n < 10 then [js ''0123456789'' ! n]
      else show_nat (n div 10) @ [js ''0123456789'' ! (n mod 10)])"

declare show_nat.simps [simp del]

definition digit_value :: "codeunit \<Rightarrow> nat" where
  "digit_value c = length (takeWhile (\<lambda>d. d \<noteq> c) (js ''0123456789''))"

definition digits_value :: "jstring \<Rightarrow> nat" where
  "digits_value ds = foldl (\<lambda>a c. 10 * a + digit_value c) 0 ds"

section \<open>Path resolver\<close>

definition segments :: "jstring \<Rightarrow> jstring list" where
  \<comment> \<open>\<^verbatim>\<open>s.split('/').filter(p => p.length > 0)\<close>\<close>
  "segments s = filter (\<lambda>p. p \<noteq> []) (split_on (of_char CHR ''/'') s)"

definition normalizePath :: "jstring \<Rightarrow> jstring" where
  "normalizePath path = js ''/'' @ join (js ''/'') (segments path)"

definition resolve_part :: "jstring list \<Rightarrow> jstring \<Rightarrow> jstring list" where
  \<comment> \<open>the body of the loop over \<^verbatim>\<open>pathParts\<close>; \<^verbatim>\<open>pop\<close> of an empty array does nothing\<close>
  "resolve_part cwdParts part =
     (if part = js ''.'' then cwdParts
      else if part = js ''..'' then butlast cwdParts
      else cwdParts @ [part])"

definition resolveAbsolutePath :: "jstring \<Rightarrow> jstring \<Rightarrow> jstring" where
  "resolveAbsolutePath path cwd =
     (if startsWith (js ''/'') path then normalizePath path
      else js ''/'' @ join (js ''/'') (foldl resolve_part (segments cwd) (segments path)))"

section \<open>Properties of the path resolver\<close>

definition plain :: "jstring list \<Rightarrow> bool" where
  \<comment> \<open>segments as \<^verbatim>\<open>split('/')\<close> with the filter leaves them: not empty, no slash inside\<close>
  "plain ws = list_all (\<lambda>w. w \<noteq> [] \<and> of_char CHR ''/'' \<notin> set w) ws"

lemma split_on_not_Nil [simp]: "split_on c s \<noteq> []"
  by (induction s) (auto split: list.splits)

lemma split_on_no_sep: "w \<in> set (split_on c s) \<Longrightarrow> c \<notin> set w"
  by (induction s arbitrary: w) (auto split: if_splits list.splits)

lemma plain_segments: "plain (segments s)"
  by (auto simp: plain_def segments_def list_all_iff dest: split_on_no_sep)

lemma split_on_plain: "c \<notin> set w \<Longrightarrow> split_on c w = [w]"
  by (induction w) auto

lemma split_on_append: "c \<notin> set w \<Longrightarrow> split_on c (w @ c # r) = w # split_on c r"
  by (induction w) (auto split: list.splits)

lemma join_Cons: "ws \<noteq> [] \<Longrightarrow> join sep (w # ws) = w @ sep @ join sep ws"
  by (cases ws) auto

lemma split_on_join:
  "plain ws \<Longrightarrow> ws \<noteq> [] \<Longrightarrow> split_on (of_char CHR ''/'') (join (js ''/'') ws) = ws"
proof (induction ws)
  case Nil
  then show ?case by simp
next
  case (Cons w ws)
  from Cons.prems have w: "of_char CHR ''/'' \<notin> set w" and ws: "plain ws"
    by (simp_all add: plain_def)
  show ?case
  proof (cases "ws = []")
    case True
    with w show ?thesis by (simp add: split_on_plain)
  next
    case False
    with ws have "split_on (of_char CHR ''/'') (join (js ''/'') ws) = ws"
      by (rule Cons.IH)
    with False w show ?thesis by (simp add: join_Cons split_on_append)
  qed
qed

lemma segments_join: "plain ws \<Longrightarrow> segments (js ''/'' @ join (js ''/'') ws) = ws"
proof (cases "ws = []")
  case True
  then show ?thesis by (simp add: segments_def)
next
  case False
  assume p: "plain ws"
  from p False have "split_on (of_char CHR ''/'') (join (js ''/'') ws) = ws"
    by (rule split_on_join)
  moreover from p have "filter (\<lambda>p. p \<noteq> []) ws = ws"
    by (simp add: plain_def list_all_iff filter_id_conv)
  ultimately show ?thesis by (simp add: segments_def)
qed

lemma plain_resolve_part: "plain xs \<Longrightarrow> plain [p] \<Longrightarrow> plain (resolve_part xs p)"
  by (auto simp: plain_def resolve_part_def list_all_iff dest: in_set_butlastD)

lemma plain_foldl_resolve_part: "plain xs \<Longrightarrow> plain ps \<Longrightarrow> plain (foldl resolve_part xs ps)"
proof (induction ps arbitrary: xs)
  case Nil
  then show ?case by simp
next
  case (Cons p ps)
  from Cons.prems(2) have p: "plain [p]" and ps: "plain ps"
    by (simp_all add: plain_def)
  from Cons.prems(1) p have "plain (resolve_part xs p)"
    by (rule plain_resolve_part)
  then have "plain (foldl resolve_part (resolve_part xs p) ps)"
    using ps by (rule Cons.IH)
  then show ?case by simp
qed

lemma foldl_resolve_part_dotdot:
  "js ''..'' \<in> set (foldl resolve_part xs ps) \<Longrightarrow> js ''..'' \<in> set xs"
proof (induction ps arbitrary: xs)
  case Nil
  then show ?case by simp
next
  case (Cons p ps)
  from Cons.prems have "js ''..'' \<in> set (foldl resolve_part (resolve_part xs p) ps)"
    by simp
  then have "js ''..'' \<in> set (resolve_part xs p)"
    by (rule Cons.IH)
  then show ?case
    by (auto simp: resolve_part_def split: if_splits dest: in_set_butlastD)
qed

lemma resolve_part_dotdot: "resolve_part xs (js ''..'') = butlast xs"
  by (simp add: resolve_part_def)

lemma foldl_resolve_part_pops:
  "foldl resolve_part xs (replicate n (js ''..'')) = take (length xs - n) xs"
proof (induction n arbitrary: xs)
  case 0
  then show ?case by simp
next
  case (Suc n)
  have "foldl resolve_part xs (replicate (Suc n) (js ''..''))
        = foldl resolve_part (butlast xs) (replicate n (js ''..''))"
    by (simp add: resolve_part_dotdot [simplified])
  also have "\<dots> = take (length (butlast xs) - n) (butlast xs)"
    by (rule Suc.IH)
  also have "\<dots> = take (length xs - Suc n) xs"
    by (simp add: butlast_conv_take min_def)
  finally show ?case .
qed

lemma segments_dotdots: "segments (join (js ''/'') (replicate n (js ''..''))) = replicate n (js ''..'')"
proof (cases n)
  case 0
  then show ?thesis by (simp add: segments_def)
next
  case (Suc m)
  have "plain (replicate n (js ''..''))"
    by (simp add: plain_def list_all_iff)
  with Suc have "split_on (of_char CHR ''/'') (join (js ''/'') (replicate n (js ''..''))) = replicate n (js ''..'')"
    by (intro split_on_join) simp_all
  then show ?thesis by (simp add: segments_def)
qed

lemma dotdots_relative: "\<not> startsWith (js ''/'') (join (js ''/'') (replicate n (js ''..'')))"
proof (cases n)
  case 0
  then show ?thesis by (simp add: startsWith_def)
next
  case (Suc m)
  then show ?thesis by (cases m) (simp_all add: startsWith_def)
qed

lemma segments_root: "segments (js ''/'') = []"
  by (simp add: segments_def)

text \<open>
  Claim C1 (root clamp of path resolution).  For every current directory and every
  relative path, that is, one that does not start with \<^verbatim>\<open>/\<close>: the resolved path starts
  with \<^verbatim>\<open>/\<close>; its segments are what the loop leaves, where \<^verbatim>\<open>..\<close> removes the last
  segment accumulated so far and does nothing when none is left; no \<^verbatim>\<open>..\<close> survives in
  the result unless the current directory itself had one, so the result never names a place
  above the root; and \<^verbatim>\<open>..\<close> repeated at least as often as the current directory has
  segments, and any number of times against \<^verbatim>\<open>/\<close>, resolves to \<^verbatim>\<open>/\<close>.
\<close>

theorem resolveAbsolutePath_root_clamp:
  "\<not> startsWith (js ''/'') path \<longrightarrow>
     startsWith (js ''/'') (resolveAbsolutePath path dir)
   \<and> segments (resolveAbsolutePath path dir) = foldl resolve_part (segments dir) (segments path)
   \<and> (js ''..'' \<in> set (segments (resolveAbsolutePath path dir)) \<longrightarrow> js ''..'' \<in> set (segments dir))
   \<and> resolve_part (ps @ [p]) (js ''..'') = ps
   \<and> resolve_part [] (js ''..'') = []
   \<and> (length (segments dir) \<le> n \<longrightarrow> resolveAbsolutePath (join (js ''/'') (replicate n (js ''..''))) dir = js ''/'')
   \<and> resolveAbsolutePath (join (js ''/'') (replicate n (js ''..''))) (js ''/'') = js ''/''"
proof (intro impI conjI)
  assume rel: "\<not> startsWith (js ''/'') path"
  let ?segs = "foldl resolve_part (segments dir) (segments path)"
  have res: "resolveAbsolutePath path dir = js ''/'' @ join (js ''/'') ?segs"
    using rel by (simp add: resolveAbsolutePath_def)
  show "startsWith (js ''/'') (resolveAbsolutePath path dir)"
    by (simp add: res startsWith_def)
  have "plain ?segs"
    by (intro plain_foldl_resolve_part plain_segments)
  then show segs: "segments (resolveAbsolutePath path dir) = ?segs"
    unfolding res by (rule segments_join)
  assume "js ''..'' \<in> set (segments (resolveAbsolutePath path dir))"
  then show "js ''..'' \<in> set (segments dir)"
    unfolding segs by (rule foldl_resolve_part_dotdot)
next
  show "resolve_part (ps @ [p]) (js ''..'') = ps"
    by (simp add: resolve_part_def)
next
  show "resolve_part [] (js ''..'') = []"
    by (simp add: resolve_part_def)
next
  assume "length (segments dir) \<le> n"
  then show "resolveAbsolutePath (join (js ''/'') (replicate n (js ''..''))) dir = js ''/''"
    by (simp add: resolveAbsolutePath_def dotdots_relative [simplified]
        segments_dotdots [simplified] foldl_resolve_part_pops [simplified])
next
  show "resolveAbsolutePath (join (js ''/'') (replicate n (js ''..''))) (js ''/'') = js ''/''"
    by (simp add: resolveAbsolutePath_def dotdots_relative [simplified]
        segments_dotdots [simplified] foldl_resolve_part_pops [simplified]
        segments_root [simplified])
qed

theorem resolveAbsolutePath_root_clamp_witness:
  "\<not> startsWith (js ''/'') (js ''../../x'')
   \<and> startsWith (js ''/'') (resolveAbsolutePath (js ''../../x'') (js ''/a/b''))
   \<and> segments (resolveAbsolutePath (js ''../../x'') (js ''/a/b'')) = [js ''x'']
   \<and> js ''..'' \<notin> set (segments (resolveAbsolutePath (js ''../../x'') (js ''/a/b'')))
   \<and> length (segments (js ''/a/b'')) \<le> (3::nat)
   \<and> resolveAbsolutePath (join (js ''/'') (replicate 3 (js ''..''))) (js ''/a/b'') = js ''/''"
proof -
  have rel: "\<not> startsWith (js ''/'') (js ''../../x'')"
    by (simp add: startsWith_def)
  have len: "length (segments (js ''/a/b'')) \<le> (3::nat)"
    by (simp add: segments_def)
  have loop: "foldl resolve_part (segments (js ''/a/b'')) (segments (js ''../../x'')) = [js ''x'']"
    by (simp add: segments_def resolve_part_def)
  from resolveAbsolutePath_root_clamp [of "js ''../../x''" "js ''/a/b''" "[]" "[]" 3] rel len
  have "startsWith (js ''/'') (resolveAbsolutePath (js ''../../x'') (js ''/a/b''))"
    and "segments (resolveAbsolutePath (js ''../../x'') (js ''/a/b''))
         = foldl resolve_part (segments (js ''/a/b'')) (segments (js ''../../x''))"
    and "resolveAbsolutePath (join (js ''/'') (replicate 3 (js ''..''))) (js ''/a/b'') = js ''/''"
    by blast+
  with rel len loop show ?thesis by simp
qed

section \<open>Nodes of the virtual filesystem\<close>

text \<open>
  A node is a plain object with a \<^verbatim>\<open>type\<close> field.  A directory carries \<^verbatim>\<open>name\<close>,
  \<^verbatim>\<open>path\<close>, for a project directory \<^verbatim>\<open>projectId\<close>, and \<^verbatim>\<open>children\<close>; a file carries
  \<^verbatim>\<open>name\<close>, \<^verbatim>\<open>path\<close>, \<^verbatim>\<open>content\<close> and, for the resume and the attachments, \<^verbatim>\<open>url\<close>.
  The \<^verbatim>\<open>children\<close> object is an association list in insertion order with one entry
  per key.
\<close>

datatype node =
    Directory jstring jstring "int option" "(jstring \<times> node) list"
  | File jstring jstring jstring "jstring option"

datatype node_type = DirectoryT | FileT

fun type_of :: "node \<Rightarrow> node_type" where
  "type_of (Directory n p i ch) = DirectoryT"
| "type_of (File n p c u) = FileT"

fun name_of :: "node \<Rightarrow> jstring" where
  "name_of (Directory n p i ch) = n"
| "name_of (File n p c u) = n"

fun path_of :: "node \<Rightarrow> jstring" where
  "path_of (Directory n p i ch) = p"
| "path_of (File n p c u) = p"

definition truthy :: "jstring option \<Rightarrow> bool" where
  \<comment> \<open>a string field in a condition: absent and empty are false\<close>
  "truthy s = (case s of None \<Rightarrow> False | Some v \<Rightarrow> v \<noteq> [])"

definition truthy_id :: "int option \<Rightarrow> bool" where
  \<comment> \<open>a number in a condition: absent and zero are false\<close>
  "truthy_id i = (case i of None \<Rightarrow> False | Some v \<Rightarrow> v \<noteq> 0)"

definition object_prototype_keys :: "jstring list" where
  \<comment> \<open>the properties every object literal inherits from \<^verbatim>\<open>Object.prototype\<close>\<close>
  "object_prototype_keys =
     [js ''constructor'', js ''__defineGetter__'', js ''__defineSetter__'', js ''hasOwnProperty'',
      (js ''__lookupGetter__''), js ''__lookupSetter__'', js ''isPrototypeOf'', js ''propertyIsEnumerable'',
      (js ''toString''), js ''valueOf'', js ''__proto__'', js ''toLocaleString'']"

text \<open>
  What \<^verbatim>\<open>children[part]\<close> evaluates to: the child stored under the key, else the
  property of that name that the object inherits (a function, or the prototype itself;
  neither has a \<^verbatim>\<open>type\<close>, a \<^verbatim>\<open>path\<close> or \<^verbatim>\<open>children\<close>), else \<^verbatim>\<open>undefined\<close>.
\<close>

datatype jsval = NodeV node | InheritedV jstring

definition get_child :: "(jstring \<times> node) list \<Rightarrow> jstring \<Rightarrow> jsval option" where
  "get_child ch k =
     (case map_of ch k of
        Some n \<Rightarrow> Some (NodeV n)
      | None \<Rightarrow> if k \<in> set object_prototype_keys then Some (InheritedV k) else None)"

fun set_child :: "(jstring \<times> node) list \<Rightarrow> jstring \<Rightarrow> node \<Rightarrow> (jstring \<times> node) list" where
  \<comment> \<open>\<^verbatim>\<open>children[k] = v\<close>: a new key goes last, an old key keeps its place\<close>
  "set_child [] k v = [(k, v)]"
| "set_child ((k', v') # kvs) k v =
     (if k' = k then (k, v) # kvs else (k', v') # set_child kvs k v)"

definition is_array_index :: "jstring \<Rightarrow> bool" where
  \<comment> \<open>a key that is the canonical decimal form of an integer below \<^verbatim>\<open>2^32 - 1\<close>\<close>
  "is_array_index k =
     (k \<noteq> [] \<and> list_all isDigit k \<and> (k = js ''0'' \<or> hd k \<noteq> of_char CHR ''0'')
      \<and> digits_value k < 4294967295)"

definition own_entries :: "(jstring \<times> node) list \<Rightarrow> (jstring \<times> node) list" where
  \<comment> \<open>\<^verbatim>\<open>Object.entries\<close>: integer keys ascending, then the other keys as inserted\<close>
  "own_entries ch =
     sort_key (\<lambda>kv. digits_value (fst kv)) (filter (\<lambda>kv. is_array_index (fst kv)) ch)
     @ filter (\<lambda>kv. \<not> is_array_index (fst kv)) ch"

section \<open>Tree builder\<close>

text \<open>
  \<^verbatim>\<open>CONSTANTS\<close> is imported from \<^verbatim>\<open>../config/constants.js\<close>; its four strings are
  parameters of the builder.  A project record is an element of \<^verbatim>\<open>project-data.json\<close>.
\<close>

record constants =
  RESUME_URL :: jstring
  EMAIL :: jstring
  GITHUB_URL :: jstring
  LINKEDIN_URL :: jstring

record attachment =
  url :: jstring
  caption :: "jstring option"

record project =
  project_id :: int
  title :: jstring
  role :: jstring
  description :: jstring
  problem_statement :: "jstring option"
  architecture_image :: "jstring option"
  technical_highlights :: "jstring list option"
  design_decisions :: "jstring list option"
  impact_metrics :: "jstring list option"
  attachments :: "attachment list option"

definition nl :: jstring where
  "nl = [0x0A]"

definition lines :: "jstring list \<Rightarrow> jstring" where
  \<comment> \<open>the lines of a multi-line literal\<close>
  "lines ls = join nl ls"

definition emdash :: jstring where
  \<comment> \<open>the em dash, U+2014\<close>
  "emdash = [0x2014]"

fun before_first :: "jstring \<Rightarrow> jstring \<Rightarrow> jstring" where
  \<comment> \<open>\<^verbatim>\<open>s.split(sep)[0]\<close>\<close>
  "before_first sep [] = []"
| "before_first sep (c # cs) =
     (if startsWith sep (c # cs) then [] else c # before_first sep cs)"

definition isSlugChar :: "codeunit \<Rightarrow> bool" where
  "isSlugChar c = (c \<in> set (js ''abcdefghijklmnopqrstuvwxyz0123456789''))"

fun hyphenate :: "bool \<Rightarrow> jstring \<Rightarrow> jstring" where
  \<comment> \<open>\<^verbatim>\<open>replace(/[^a-z0-9]+/g, '-')\<close>; the flag says that a run is being replaced\<close>
  "hyphenate run [] = []"
| "hyphenate run (c # cs) =
     (if isSlugChar c then c # hyphenate False cs
      else if run then hyphenate True cs
      else (of_char CHR ''-'') # hyphenate True cs)"

definition strip_hyphens :: "jstring \<Rightarrow> jstring" where
  \<comment> \<open>\<^verbatim>\<open>replace(/^-+|-+$/g, '')\<close>\<close>
  "strip_hyphens s =
     rev (dropWhile (\<lambda>c. c = of_char CHR ''-'') (rev (dropWhile (\<lambda>c. c = of_char CHR ''-'') s)))"

definition generateSlug :: "runtime \<Rightarrow> jstring \<Rightarrow> jstring" where
  "generateSlug rt t =
     strip_hyphens (hyphenate False (trim (before_first emdash (toLowerCase rt t))))"

fun replace_first :: "jstring \<Rightarrow> jstring \<Rightarrow> jstring \<Rightarrow> jstring" where
  \<comment> \<open>\<^verbatim>\<open>s.replace(pat, rep)\<close> with a string pattern: the first occurrence only\<close>
  "replace_first pat rep [] = (if pat = [] then rep else [])"
| "replace_first pat rep (c # cs) =
     (if startsWith pat (c # cs) then rep @ drop (length pat) (c # cs)
      else c # replace_first pat rep cs)"

definition enumerate_from0 :: "'a list \<Rightarrow> (nat \<times> 'a) list" where
  \<comment> \<open>the elements with their index, as \<^verbatim>\<open>forEach((x, i) => ...)\<close> sees them\<close>
  "enumerate_from0 xs = zip [0..<length xs] xs"

definition getAboutContent :: jstring where
  "getAboutContent = lines
     [js ''RAHEEMUDHEEN MA'',
      js ''Full-Stack Engineer'',
      [],
      js ''I build production systems with a focus on architectural clarity, maintainability, and long-term scalability. My work spans full-stack development, frontend architecture, real-time systems, and product ownership across fintech, logistics, and SaaS domains.'',
      [],
      js ''I care about systems thinking, product judgment, and delivering work that lasts.'']"

definition getContactContent :: "constants \<Rightarrow> jstring" where
  "getContactContent k = lines
     [js ''Contact Information:'',
      [],
      (js ''Email: '') @ EMAIL k,
      (js ''GitHub: '') @ GITHUB_URL k,
      (js ''LinkedIn: '') @ LINKEDIN_URL k,
      js ''Location: Kerala, India'']"

definition getSystemInfo :: jstring where
  "getSystemInfo = lines
     [js ''Portfolio System Information'',
      [],
      js ''Technology Stack:'',
      js ''- Vanilla JavaScript (ES6+)'',
      js ''- Vite (Build Tool)'',
      js ''- GSAP (Animations)'',
      js ''- LoconativeScroll (Smooth Scrolling)'',
      js ''- SCSS (Styling)'',
      [],
      js ''Architecture:'',
      js ''- Two-page application (index.html, project.html)'',
      js ''- URL-based routing with query parameters'',
      js ''- Centralized data model (project-data.json)'',
      js ''- Direct DOM manipulation'',
      js ''- Theme preference in localStorage'',
      [],
      js ''Console Mode:'',
      js ''- Read-only virtual filesystem'',
      js ''- Lazy-loaded module'',
      js ''- Zero impact on initial page load'']"

definition formatProjectOverview :: "project \<Rightarrow> jstring" where
  "formatProjectOverview p =
     title p @ nl
     @ replicate (length (title p)) (of_char CHR ''='') @ nl @ nl
     @ js ''Role: '' @ role p @ nl @ nl
     @ description p @ nl @ nl
     @ (if truthy (problem_statement p)
        then js ''Problem Statement:'' @ nl @ the (problem_statement p) @ nl
        else [])"

definition formatProjectArchitecture :: "project \<Rightarrow> jstring" where
  "formatProjectArchitecture p =
     (js ''Architecture - '') @ title p @ nl
     @ replicate (length (title p) + 15) (of_char CHR ''='') @ nl @ nl
     @ (if truthy (architecture_image p)
        then js ''Architecture Diagram: /public/'' @ the (architecture_image p) @ nl @ nl
        else [])
     @ (case technical_highlights p of
          None \<Rightarrow> []
        | Some hs \<Rightarrow>
            (js ''Technical Highlights:'') @ nl
            @ concat (map (\<lambda>(i, h). show_nat (i + 1) @ js ''. '' @ h @ nl) (enumerate_from0 hs)))"

definition formatProjectDecisions :: "project \<Rightarrow> jstring" where
  "formatProjectDecisions p =
     (js ''Design Decisions - '') @ title p @ nl
     @ replicate (length (title p) + 18) (of_char CHR ''='') @ nl @ nl
     @ (case design_decisions p of
          None \<Rightarrow> []
        | Some ds \<Rightarrow>
            concat (map (\<lambda>(i, d). (js ''['') @ show_nat (i + 1) @ js ''] '' @ d @ nl @ nl)
                     (enumerate_from0 ds)))"

definition bullet :: jstring where
  \<comment> \<open>the bullet, U+2022\<close>
  "bullet = [0x2022]"

definition formatProjectImpact :: "project \<Rightarrow> jstring" where
  "formatProjectImpact p =
     (js ''Impact Metrics - '') @ title p @ nl
     @ replicate (length (title p) + 17) (of_char CHR ''='') @ nl @ nl
     @ (case impact_metrics p of
          None \<Rightarrow> []
        | Some ms \<Rightarrow> concat (map (\<lambda>m. bullet @ js '' '' @ m @ nl) ms))"

subsection \<open>Attachment names\<close>

definition has_child :: "(jstring \<times> node) list \<Rightarrow> jstring \<Rightarrow> bool" where
  \<comment> \<open>the condition \<^verbatim>\<open>children[filename]\<close>\<close>
  "has_child ch k = (get_child ch k \<noteq> None)"

definition numbered :: "jstring \<Rightarrow> jstring \<Rightarrow> nat \<Rightarrow> jstring" where
  \<comment> \<open>the template \<^verbatim>\<open>${originalFilename.replace(`.${ext}`, '')}-${counter}.${ext}\<close>\<close>
  "numbered originalFilename ext counter =
     replace_first (js ''.'' @ ext) [] originalFilename @ js ''-'' @ show_nat counter @ js ''.'' @ ext"

lemma digit_value_nth: "d < 10 \<Longrightarrow> digit_value (js ''0123456789'' ! d) = d"
proof -
  assume "d < 10"
  then have "d \<in> {0, 1, 2, 3, 4, 5, 6, 7, 8, 9}" by auto
  then show ?thesis by (auto simp: digit_value_def)
qed

lemma digits_value_snoc: "digits_value (ds @ [c]) = 10 * digits_value ds + digit_value c"
  by (simp add: digits_value_def)

lemma digits_value_show_nat: "digits_value (show_nat n) = n"
proof (induction n rule: show_nat.induct)
  case (1 n)
  show ?case
  proof (cases "n < 10")
    case True
    then show ?thesis
      by (subst show_nat.simps) (simp add: digits_value_def digit_value_nth [simplified])
  next
    case False
    with 1 have "digits_value (show_nat (n div 10)) = n div 10" by simp
    with False show ?thesis
      by (subst show_nat.simps) (simp add: digits_value_snoc digit_value_nth [simplified])
  qed
qed

lemma show_nat_inj: "show_nat m = show_nat n \<Longrightarrow> m = n"
  by (metis digits_value_show_nat)

lemma numbered_inj: "numbered f e m = numbered f e n \<Longrightarrow> m = n"
  by (simp add: numbered_def show_nat_inj)

lemma numbered_not_inherited: "numbered f e n \<notin> set object_prototype_keys"
proof -
  have "of_char CHR ''-'' \<in> set (numbered f e n)"
    by (simp add: numbered_def)
  moreover have "\<forall>k \<in> set object_prototype_keys. (of_char CHR ''-'') \<notin> set k"
    by (simp add: object_prototype_keys_def)
  ultimately show ?thesis by blast
qed

lemma has_child_numbered: "has_child ch (numbered f e n) \<longleftrightarrow> numbered f e n \<in> fst ` set ch"
proof -
  have "has_child ch (numbered f e n) \<longleftrightarrow> map_of ch (numbered f e n) \<noteq> None"
    using numbered_not_inherited [of f e n]
    by (simp add: has_child_def get_child_def split: option.splits)
  then show ?thesis by (simp add: map_of_eq_None_iff)
qed

lemma finite_numbered: "finite {n. numbered f e n \<in> K}" if "finite K"
proof -
  have "inj (numbered f e)"
    by (rule injI) (rule numbered_inj)
  with that have "finite (numbered f e -` K)"
    by (rule finite_vimageI)
  then show ?thesis by (simp add: vimage_def)
qed

text \<open>
  The loop that makes a file name unique.  It ends because the candidates it tries are
  pairwise different and the directory has finitely many children.
\<close>

function unique_name ::
  "(jstring \<times> node) list \<Rightarrow> jstring \<Rightarrow> jstring \<Rightarrow> jstring \<Rightarrow> nat \<Rightarrow> jstring" where
  "unique_name ch originalFilename ext filename counter =
     (if has_child ch filename
      then unique_name ch originalFilename ext (numbered originalFilename ext counter) (counter + 1)
      else filename)"
  by pat_completeness auto
termination
proof (relation "measure (\<lambda>(ch, f, e, name, c).
    card {n. c \<le> n \<and> numbered f e n \<in> fst ` set ch} + (if has_child ch name then 1 else 0))")
  show "wf (measure (\<lambda>(ch, f, e, name, c).
    card {n. c \<le> n \<and> numbered f e n \<in> fst ` set ch} + (if has_child ch name then 1 else 0)))"
    by simp
next
  fix ch :: "(jstring \<times> node) list" and f e name :: jstring and c :: nat
  assume "has_child ch name"
  let ?S = "\<lambda>c. {n. c \<le> n \<and> numbered f e n \<in> fst ` set ch}"
  have fin: "finite (?S c)"
    using finite_numbered [of "fst ` set ch" f e] by simp
  have sub: "?S (c + 1) \<subseteq> ?S c" by auto
  have "card (?S (c + 1)) + (if has_child ch (numbered f e c) then 1 else 0) \<le> card (?S c)"
  proof (cases "has_child ch (numbered f e c)")
    case True
    then have "c \<in> ?S c" and "c \<notin> ?S (c + 1)"
      by (simp_all add: has_child_numbered)
    with sub have "?S (c + 1) \<subset> ?S c" by blast
    with fin have "card (?S (c + 1)) < card (?S c)"
      by (rule psubset_card_mono)
    with True show ?thesis by simp
  next
    case False
    with fin sub show ?thesis by (simp add: card_mono)
  qed
  with \<open>has_child ch name\<close>
  show "((ch, f, e, numbered f e c, c + 1), (ch, f, e, name, c))
        \<in> measure (\<lambda>(ch, f, e, name, c).
            card {n. c \<le> n \<and> numbered f e n \<in> fst ` set ch}
            + (if has_child ch name then 1 else 0))"
    by simp
qed

declare unique_name.simps [simp del]

definition attachment_file :: "runtime \<Rightarrow> jstring \<Rightarrow> jstring \<Rightarrow> attachment \<Rightarrow> node" where
  \<comment> \<open>the file node stored for an attachment under the name \<^verbatim>\<open>filename\<close>\<close>
  "attachment_file rt slug filename att =
     File filename (js ''/projects/'' @ slug @ js ''/attachments/'' @ filename)
       (js ''Attachment: '' @ (case caption att of None \<Rightarrow> js ''undefined'' | Some c \<Rightarrow> c) @ nl
        @ js ''Type: '' @ (if endsWith (js ''.pdf'') (toLowerCase rt (url att)) then js ''PDF Document'' else js ''Image'') @ nl
        @ js ''URL: '' @ url att @ nl @ nl
        @ js ''Use '' @ [0x27] @ js ''open'' @ [0x27] @ js '' command to view.'')
       (Some (url att))"

definition attachment_extension :: "runtime \<Rightarrow> attachment \<Rightarrow> jstring" where
  \<comment> \<open>\<^verbatim>\<open>isPdf ? 'pdf' : 'jpg'\<close> with \<^verbatim>\<open>isPdf = att.url.toLowerCase().endsWith('.pdf')\<close>\<close>
  "attachment_extension rt att = (if endsWith (js ''.pdf'') (toLowerCase rt (url att)) then js ''pdf'' else js ''jpg'')"

definition attachment_base :: "runtime \<Rightarrow> nat \<Rightarrow> attachment \<Rightarrow> jstring" where
  \<comment> \<open>\<^verbatim>\<open>this._generateSlug(att.caption || `attachment-${index + 1}`)\<close>\<close>
  "attachment_base rt index att =
     generateSlug rt (if truthy (caption att) then the (caption att)
                   else js ''attachment-'' @ show_nat (index + 1))"

definition attachment_name ::
  "runtime \<Rightarrow> (jstring \<times> node) list \<Rightarrow> nat \<Rightarrow> attachment \<Rightarrow> jstring" where
  \<comment> \<open>the name the loop settles on for the attachment at \<^verbatim>\<open>index\<close>, given the children so far\<close>
  "attachment_name rt ch index att =
     (let ext = attachment_extension rt att;
          filename = attachment_base rt index att @ js ''.'' @ ext
      in unique_name ch filename ext filename 1)"

definition add_attachment ::
  "runtime \<Rightarrow> jstring \<Rightarrow> (jstring \<times> node) list \<Rightarrow> nat \<times> attachment \<Rightarrow> (jstring \<times> node) list" where
  \<comment> \<open>the body of \<^verbatim>\<open>project.attachments.forEach((att, index) => ...)\<close>\<close>
  "add_attachment rt slug ch ia =
     (let filename = attachment_name rt ch (fst ia) (snd ia)
      in set_child ch filename (attachment_file rt slug filename (snd ia)))"

definition buildAttachmentsDirectory :: "runtime \<Rightarrow> attachment list \<Rightarrow> jstring \<Rightarrow> node" where
  "buildAttachmentsDirectory rt atts slug =
     Directory (js ''attachments'') (js ''/projects/'' @ slug @ js ''/attachments'') None
       (foldl (add_attachment rt slug) [] (enumerate_from0 atts))"

subsection \<open>The three branches\<close>

definition buildBaseDirectory :: "constants \<Rightarrow> node" where
  "buildBaseDirectory k =
     Directory (js ''base'') (js ''/base'') None
       [(js ''about'', File (js ''about'') (js ''/base/about'') getAboutContent None),
        (js ''contact'', File (js ''contact'') (js ''/base/contact'') (getContactContent k) None),
        (js ''resume'', File (js ''resume'') (js ''/base/resume'') (js ''[Resume Link - Opens in browser]'')
                      (Some (RESUME_URL k)))]"

definition projectNode :: "runtime \<Rightarrow> project \<Rightarrow> node" where
  \<comment> \<open>the directory built for one project in \<^verbatim>\<open>_buildProjectsDirectory\<close>\<close>
  "projectNode rt p =
     (let slug = generateSlug rt (title p);
          dir = js ''/projects/'' @ slug;
          files =
            [(js ''overview'', File (js ''overview'') (dir @ js ''/overview'') (formatProjectOverview p) None),
             (js ''architecture'',
                File (js ''architecture'') (dir @ js ''/architecture'') (formatProjectArchitecture p) None),
             (js ''decisions.log'',
                File (js ''decisions.log'') (dir @ js ''/decisions.log'') (formatProjectDecisions p) None),
             (js ''impact'', File (js ''impact'') (dir @ js ''/impact'') (formatProjectImpact p) None)]
      in Directory slug dir (Some (project_id p))
           (case attachments p of
              None \<Rightarrow> files
            | Some atts \<Rightarrow>
                if length atts > 0
                then set_child files (js ''attachments'') (buildAttachmentsDirectory rt atts slug)
                else files))"

definition buildProjectsDirectory :: "runtime \<Rightarrow> project list option \<Rightarrow> node" where
  "buildProjectsDirectory rt projectData =
     Directory (js ''projects'') (js ''/projects'') None
       (case projectData of
          None \<Rightarrow> []
        | Some ps \<Rightarrow>
            foldl (\<lambda>ch p. set_child ch (generateSlug rt (title p)) (projectNode rt p)) [] ps)"

definition buildMetaDirectory :: node where
  "buildMetaDirectory =
     Directory (js ''meta'') (js ''/meta'') None
       [(js ''system.info'', File (js ''system.info'') (js ''/meta/system.info'') getSystemInfo None),
        (js ''version'', File (js ''version'') (js ''/meta/version'')
                       (js ''Portfolio v2.0'' @ nl @ js ''Last Updated: January 2026'') None)]"

definition buildFileTree :: "runtime \<Rightarrow> constants \<Rightarrow> project list option \<Rightarrow> node" where
  "buildFileTree rt k projectData =
     Directory [] (js ''/'') None
       [(js ''base'', buildBaseDirectory k),
        (js ''projects'', buildProjectsDirectory rt projectData),
        (js ''meta'', buildMetaDirectory)]"

section \<open>Virtual filesystem\<close>

record vfs =
  root :: "node option"
  projectData :: "project list option"
  initialized :: bool

definition new_vfs :: vfs where
  \<comment> \<open>the constructor\<close>
  "new_vfs = \<lparr>root = None, projectData = None, initialized = False\<rparr>"

definition initialize :: "runtime \<Rightarrow> constants \<Rightarrow> vfs \<Rightarrow> project list option \<Rightarrow> vfs" where
  "initialize rt k v pd =
     (if initialized v then v
      else \<lparr>root = Some (buildFileTree rt k pd), projectData = pd, initialized = True\<rparr>)"

subsection \<open>Errors\<close>

text \<open>
  Every \<^verbatim>\<open>throw new Error(...)\<close> of the source is a value of the type \<^verbatim>\<open>error\<close>, named after
  the error kinds of the specification; \<^verbatim>\<open>message\<close> is its \<^verbatim>\<open>message\<close>.  A
  \<^verbatim>\<open>TypeError\<close> is what the runtime throws on a property access on \<^verbatim>\<open>undefined\<close> or
  \<^verbatim>\<open>null\<close>; its text belongs to the runtime.
\<close>

datatype error =
    FilesystemNotInitialized
  | PathNotFound jstring
  | NotADirectory jstring
  | NotAFile jstring
  | MissingArgument jstring
  | InvalidDepth
  | TypeError jstring

fun message :: "error \<Rightarrow> jstring" where
  "message FilesystemNotInitialized = js ''Filesystem not initialized''"
| "message (PathNotFound path) = js ''path not found: '' @ path"
| "message (NotADirectory path) = js ''not a directory: '' @ path"
| "message (NotAFile path) = js ''not a file: '' @ path"
| "message (MissingArgument m) = m"
| "message InvalidDepth = js ''tree depth must be a positive number''"
| "message (TypeError m) = m"

subsection \<open>Resolving a path to a node\<close>

fun walk :: "jsval \<Rightarrow> jstring list \<Rightarrow> jsval option" where
  \<comment> \<open>the loop \<^verbatim>\<open>for (const part of parts)\<close> of \<^verbatim>\<open>resolvePath\<close>; \<^verbatim>\<open>null\<close> is \<^term>\<open>None\<close>\<close>
  "walk current [] = Some current"
| "walk current (part # parts) =
     (case current of
        NodeV (Directory n p i ch) \<Rightarrow>
          (case get_child ch part of
             None \<Rightarrow> None
           | Some child \<Rightarrow> walk child parts)
      | _ \<Rightarrow> None)"

definition resolvePath :: "vfs \<Rightarrow> jstring \<Rightarrow> jstring \<Rightarrow> error + jsval option" where
  "resolvePath v path cwd =
     (if \<not> initialized v then Inl FilesystemNotInitialized
      else
        let parts = segments (resolveAbsolutePath path cwd) in
        case root v of
          None \<Rightarrow> if parts = [] then Inr None else Inl (TypeError (js ''Cannot read properties of null''))
        | Some r \<Rightarrow> Inr (walk (NodeV r) parts))"

subsection \<open>Listing a directory\<close>

record entry =
  entry_name :: jstring
  entry_type :: node_type
  entry_path :: jstring

definition compareEntries :: "runtime \<Rightarrow> entry \<Rightarrow> entry \<Rightarrow> int" where
  \<comment> \<open>the comparator passed to \<^verbatim>\<open>sort\<close>; \<^verbatim>\<open>a.name.localeCompare(b.name)\<close> is the
      collation of the runtime\<close>
  "compareEntries rt a b =
     (if entry_type a \<noteq> entry_type b
      then (if entry_type a = DirectoryT then - 1 else 1)
      else localeCompare rt (entry_name a) (entry_name b))"

fun insert_by :: "('a \<Rightarrow> 'a \<Rightarrow> int) \<Rightarrow> 'a \<Rightarrow> 'a list \<Rightarrow> 'a list" where
  "insert_by cmp x [] = [x]"
| "insert_by cmp x (y # ys) = (if cmp x y \<le> 0 then x # y # ys else y # insert_by cmp x ys)"

definition sort_by :: "('a \<Rightarrow> 'a \<Rightarrow> int) \<Rightarrow> 'a list \<Rightarrow> 'a list" where
  \<comment> \<open>\<^verbatim>\<open>Array.prototype.sort(cmp)\<close>: the sort is stable, so for a consistent comparator
      its result is the one arrangement that insertion from the right computes\<close>
  "sort_by cmp xs = foldr (insert_by cmp) xs []"

definition entry_of :: "jstring \<times> node \<Rightarrow> entry" where
  "entry_of kv =
     \<lparr>entry_name = fst kv, entry_type = type_of (snd kv), entry_path = path_of (snd kv)\<rparr>"

definition listDirectory :: "runtime \<Rightarrow> vfs \<Rightarrow> jstring \<Rightarrow> jstring \<Rightarrow> error + entry list" where
  "listDirectory rt v path cwd =
     (case resolvePath v path cwd of
        Inl e \<Rightarrow> Inl e
      | Inr None \<Rightarrow> Inl (PathNotFound path)
      | Inr (Some (NodeV (Directory n p i ch))) \<Rightarrow>
          Inr (sort_by (compareEntries rt) (map entry_of (own_entries ch)))
      | Inr (Some _) \<Rightarrow> Inl (NotADirectory path))"

subsection \<open>Reading a file\<close>

definition readFile :: "vfs \<Rightarrow> jstring \<Rightarrow> jstring \<Rightarrow> error + jstring" where
  "readFile v path cwd =
     (case resolvePath v path cwd of
        Inl e \<Rightarrow> Inl e
      | Inr None \<Rightarrow> Inl (PathNotFound path)
      | Inr (Some (NodeV (File n p c u))) \<Rightarrow> Inr c
      | Inr (Some _) \<Rightarrow> Inl (NotAFile path))"

subsection \<open>Tree view\<close>

definition connector_last :: jstring where
  \<comment> \<open>U+2514, twice U+2500, and a space\<close>
  "connector_last = [0x2514, 0x2500, 0x2500, 0x20]"

definition connector_mid :: jstring where
  \<comment> \<open>U+251C, twice U+2500, and a space\<close>
  "connector_mid = [0x251C, 0x2500, 0x2500, 0x20]"

definition continuation :: jstring where
  \<comment> \<open>U+2502 and three spaces\<close>
  "continuation = [0x2502] @ js ''   ''"

definition tree_line :: "jstring \<Rightarrow> jstring \<Rightarrow> bool \<Rightarrow> int \<Rightarrow> jstring \<Rightarrow> jstring" where
  \<comment> \<open>the line pushed for a node with the given \<^verbatim>\<open>name\<close> and suffix\<close>
  "tree_line n suffix isLast currentDepth prefix =
     (let connector = (if isLast then connector_last else connector_mid);
          displayName = (if n = [] then js ''/'' else n)
      in if currentDepth > 0 then prefix @ connector @ displayName @ suffix
         else displayName @ suffix)"

function buildTreeLines ::
    "node \<Rightarrow> jstring \<Rightarrow> bool \<Rightarrow> int \<Rightarrow> int \<Rightarrow> jstring list \<Rightarrow> jstring list"
  and buildChildLines ::
    "(jstring \<times> node) list \<Rightarrow> jstring \<Rightarrow> int \<Rightarrow> int \<Rightarrow> jstring list \<Rightarrow> jstring list"
where
  "buildTreeLines node prefix isLast maxDepth currentDepth ls =
     (if currentDepth > maxDepth then ls
      else
        let suffix = (if type_of node = DirectoryT then js ''/'' else []);
            ls1 = ls @ [tree_line (name_of node) suffix isLast currentDepth prefix]
        in case node of
             Directory n p i ch \<Rightarrow>
               if currentDepth < maxDepth
               then buildChildLines (own_entries ch)
                      (if currentDepth = 0 then []
                       else prefix @ (if isLast then js ''    '' else continuation))
                      maxDepth (currentDepth + 1) ls1
               else ls1
           | File n p c u \<Rightarrow> ls1)"
| "buildChildLines [] newPrefix maxDepth depth ls = ls"
| "buildChildLines (kv # rest) newPrefix maxDepth depth ls =
     buildChildLines rest newPrefix maxDepth depth
       (buildTreeLines (snd kv) newPrefix (rest = []) maxDepth depth ls)"
  by pat_completeness auto
termination
  by (relation "inv_image (less_than <*lex*> less_than)
        (\<lambda>x. case x of
           Inl (node, prefix, isLast, maxDepth, currentDepth, ls) \<Rightarrow>
             (nat (maxDepth + 1 - currentDepth), 0)
         | Inr (kvs, newPrefix, maxDepth, depth, ls) \<Rightarrow>
             (nat (maxDepth + 1 - depth), Suc (length kvs)))")
    auto

definition inherited_name :: "jstring \<Rightarrow> jstring" where
  \<comment> \<open>the \<^verbatim>\<open>name\<close> of an inherited property: a function has one, the prototype has none\<close>
  "inherited_name k =
     (if k = js ''constructor'' then js ''Object'' else if k = js ''__proto__'' then [] else k)"

definition getTree :: "vfs \<Rightarrow> jstring \<Rightarrow> int \<Rightarrow> jstring \<Rightarrow> error + jstring" where
  "getTree v path depth cwd =
     (case resolvePath v path cwd of
        Inl e \<Rightarrow> Inl e
      | Inr None \<Rightarrow> Inl (PathNotFound path)
      | Inr (Some (NodeV node)) \<Rightarrow> Inr (join nl (buildTreeLines node [] True depth 0 []))
      | Inr (Some (InheritedV k)) \<Rightarrow>
          Inr (join nl (if 0 > depth then [] else [tree_line (inherited_name k) [] True 0 []])))"

subsection \<open>Search\<close>

record search_result =
  result_path :: jstring
  snippet :: jstring

definition snippet_of :: "runtime \<Rightarrow> jstring \<Rightarrow> jstring \<Rightarrow> jstring" where
  \<comment> \<open>the snippet of a file whose lower-cased content contains \<^verbatim>\<open>searchTerm\<close>\<close>
  "snippet_of rt fileContent searchTerm =
     (let lower = toLowerCase rt fileContent;
          index = the (indexOf searchTerm lower);
          start = index - 50;
          end' = min (length lower) (index + length searchTerm + 50)
      in (if start > 0 then js ''...'' else [])
         @ substring fileContent start end'
         @ (if end' < length lower then js ''...'' else []))"

lemma size_list_sum: "size_list f xs = sum_list (map (\<lambda>x. Suc (f x)) xs)"
  by (induction xs) auto

lemma size_own_entries:
  "size_list size (map snd (own_entries ch)) \<le> size_list (size_prod (\<lambda>x. 0) size) ch"
proof -
  have perm: "mset (own_entries ch) = mset ch"
    by (simp add: own_entries_def)
  have "size_list size (map snd (own_entries ch))
        = sum_list (map (\<lambda>kv. Suc (size (snd kv))) (own_entries ch))"
    by (simp add: size_list_sum comp_def)
  also have "\<dots> = sum_mset (image_mset (\<lambda>kv. Suc (size (snd kv))) (mset (own_entries ch)))"
    by (metis mset_map sum_mset_sum_list)
  also have "\<dots> = sum_mset (image_mset (\<lambda>kv. Suc (size (snd kv))) (mset ch))"
    by (simp only: perm)
  also have "\<dots> = sum_list (map (\<lambda>kv. Suc (size (snd kv))) ch)"
    by (metis mset_map sum_mset_sum_list)
  also have "\<dots> \<le> sum_list (map (\<lambda>kv. Suc (size_prod (\<lambda>x. 0) size kv)) ch)"
    by (rule sum_list_mono) (auto simp: size_prod_simp)
  also have "\<dots> = size_list (size_prod (\<lambda>x. 0) size) ch"
    by (simp add: size_list_sum)
  finally show ?thesis .
qed

function searchNode ::
    "runtime \<Rightarrow> node \<Rightarrow> jstring \<Rightarrow> search_result list \<Rightarrow> search_result list"
  and searchNodes ::
    "runtime \<Rightarrow> node list \<Rightarrow> jstring \<Rightarrow> search_result list \<Rightarrow> search_result list"
where
  "searchNode rt (File n p c u) searchTerm results =
     (if c \<noteq> [] \<and> includes_str searchTerm (toLowerCase rt c)
      then results @ [\<lparr>result_path = p, snippet = snippet_of rt c searchTerm\<rparr>]
      else results)"
| "searchNode rt (Directory n p i ch) searchTerm results =
     searchNodes rt (map snd (own_entries ch)) searchTerm results"
| "searchNodes rt [] searchTerm results = results"
| "searchNodes rt (child # rest) searchTerm results =
     searchNodes rt rest searchTerm (searchNode rt child searchTerm results)"
  by pat_completeness auto
termination
proof (relation "measure (\<lambda>x. case x of
           Inl (rt, node, searchTerm, results) \<Rightarrow> size node
         | Inr (rt, nodes, searchTerm, results) \<Rightarrow> size_list size nodes)", goal_cases)
  case 1
  show ?case by simp
next
  case (2 rt n p i ch searchTerm results)
  show ?case using size_own_entries [of ch] by simp
next
  case (3 rt child rest searchTerm results)
  show ?case by simp
next
  case (4 rt child rest searchTerm results)
  show ?case by simp
qed

definition search :: "runtime \<Rightarrow> vfs \<Rightarrow> jstring \<Rightarrow> error + search_result list" where
  "search rt v keyword =
     (if keyword = [] \<or> trim keyword = [] then Inl (MissingArgument (js ''search keyword required''))
      else case root v of
             None \<Rightarrow> Inl (TypeError (js ''Cannot read properties of null''))
           | Some r \<Rightarrow> Inr (searchNode rt r (toLowerCase rt keyword) []))"

subsection \<open>From a path to the project it belongs to\<close>

fun projectId_of :: "jsval \<Rightarrow> int option" where
  \<comment> \<open>the field \<^verbatim>\<open>projectId\<close>, which only a project directory has\<close>
  "projectId_of (NodeV (Directory n p i ch)) = i"
| "projectId_of _ = None"

definition getProjectIdFromPath :: "vfs \<Rightarrow> jstring \<Rightarrow> error + int option" where
  "getProjectIdFromPath v path =
     (case resolvePath v path (js ''/'') of
        Inl e \<Rightarrow> Inl e
      | Inr None \<Rightarrow> Inr None
      | Inr (Some node) \<Rightarrow>
          if truthy_id (projectId_of node) then Inr (projectId_of node)
          else
            let parts = segments path in
            if length parts \<ge> 2 \<and> parts ! 0 = js ''projects''
            then (case resolvePath v (js ''/projects/'' @ parts ! 1) (js ''/'') of
                    Inl e \<Rightarrow> Inl e
                  | Inr None \<Rightarrow> Inr None
                  | Inr (Some dir) \<Rightarrow>
                      Inr (if truthy_id (projectId_of dir) then projectId_of dir else None))
            else Inr None)"

section \<open>Command interpreter\<close>

text \<open>
  The session state of \<^verbatim>\<open>CommandParser\<close>: the filesystem it was constructed with, the
  current directory and the history.  A handler returns what it returns or throws,
  together with the state it leaves behind.
\<close>

record parser =
  vfs :: vfs
  cwd :: jstring
  history :: "jstring list"

definition new_parser :: "vfs \<Rightarrow> parser" where
  \<comment> \<open>the constructor\<close>
  "new_parser v = \<lparr>vfs = v, cwd = js ''/'', history = []\<rparr>"

datatype navigation = NavProject int | NavUrl jstring

record handler_result =
  h_output :: jstring
  h_navigation :: "navigation option"
  h_exit :: bool
  h_clear :: bool

definition out :: "jstring \<Rightarrow> handler_result" where
  \<comment> \<open>the object \<^verbatim>\<open>{ output: s }\<close>\<close>
  "out s = \<lparr>h_output = s, h_navigation = None, h_exit = False, h_clear = False\<rparr>"

record command_result =
  res_output :: jstring
  res_error :: bool
  res_navigation :: "navigation option"
  res_exit :: bool

type_synonym handler = "parser \<Rightarrow> jstring list \<Rightarrow> (error + handler_result) \<times> parser"

definition aliases :: "(jstring \<times> jstring) list" where
  "aliases =
     [(js ''ls'', js ''list''), (js ''cd'', js ''open''), (js ''cat'', js ''read''), (js ''dir'', js ''list''),
      (js ''pwd'', js ''cwd''), (js ''quit'', js ''exit'')]"

subsection \<open>Tokens\<close>

definition quote :: codeunit where
  "quote = 0x22"

lemma length_tl_dropWhile: "length (tl (dropWhile P cs)) < Suc (length cs)"
proof -
  have "length (tl (dropWhile P cs)) \<le> length (dropWhile P cs)" by simp
  also have "\<dots> \<le> length cs" by (rule length_dropWhile_le)
  finally show ?thesis by simp
qed

function take_token :: "jstring \<Rightarrow> jstring \<times> jstring" where
  \<comment> \<open>the longest prefix that \<^verbatim>\<open>(?:[^\s"]+|"[^"]*")*\<close> matches, and what follows it\<close>
  "take_token [] = ([], [])"
| "take_token (c # cs) =
     (if c = quote then
        (if quote \<in> set cs
         then (let tr = take_token (tl (dropWhile (\<lambda>x. x \<noteq> quote) cs))
               in (c # takeWhile (\<lambda>x. x \<noteq> quote) cs @ quote # fst tr, snd tr))
         else ([], c # cs))
      else if isSpace c then ([], c # cs)
      else (let tr = take_token cs in (c # fst tr, snd tr)))"
  by pat_completeness auto
termination
proof (relation "measure length", goal_cases)
  case 1
  show ?case by simp
next
  case (2 c cs)
  show ?case using length_tl_dropWhile [of "\<lambda>x. x \<noteq> quote" cs] by simp
next
  case (3 c cs)
  show ?case by simp
qed

declare take_token.simps [simp del]

lemma take_token_length: "length (fst (take_token s)) + length (snd (take_token s)) = length s"
proof (induction s rule: take_token.induct)
  case 1
  show ?case by (simp add: take_token.simps(1))
next
  case (2 c cs)
  let ?rest = "tl (dropWhile (\<lambda>x. x \<noteq> quote) cs)"
  consider (quoted) "c = quote" "quote \<in> set cs"
    | (unmatched) "c = quote" "quote \<notin> set cs"
    | (space) "c \<noteq> quote" "isSpace c"
    | (plain) "c \<noteq> quote" "\<not> isSpace c"
    by blast
  then show ?case
  proof cases
    case quoted
    then have eq: "take_token (c # cs)
        = (c # takeWhile (\<lambda>x. x \<noteq> quote) cs @ quote # fst (take_token ?rest),
           snd (take_token ?rest))"
      by (subst take_token.simps(2)) (simp add: Let_def)
    from quoted have dw: "dropWhile (\<lambda>x. x \<noteq> quote) cs \<noteq> []"
      by (simp add: dropWhile_eq_Nil_conv)
    have "length (takeWhile (\<lambda>x. x \<noteq> quote) cs @ dropWhile (\<lambda>x. x \<noteq> quote) cs) = length cs"
      by (simp only: takeWhile_dropWhile_id)
    then have split: "length (takeWhile (\<lambda>x. x \<noteq> quote) cs)
        + length (dropWhile (\<lambda>x. x \<noteq> quote) cs) = length cs"
      by (simp only: length_append)
    from dw have "length (dropWhile (\<lambda>x. x \<noteq> quote) cs) = Suc (length ?rest)"
      by (cases "dropWhile (\<lambda>x. x \<noteq> quote) cs") simp_all
    moreover have "length (fst (take_token ?rest)) + length (snd (take_token ?rest)) = length ?rest"
      using quoted by (rule "2.IH"(1))
    ultimately show ?thesis
      using split by (simp only: eq fst_conv snd_conv length_Cons length_append)
  next
    case unmatched
    then have "take_token (c # cs) = ([], c # cs)"
      by (subst take_token.simps(2)) simp
    then show ?thesis by simp
  next
    case space
    then have "take_token (c # cs) = ([], c # cs)"
      by (subst take_token.simps(2)) simp
    then show ?thesis by simp
  next
    case plain
    then have eq: "take_token (c # cs) = (c # fst (take_token cs), snd (take_token cs))"
      by (subst take_token.simps(2)) (simp add: Let_def)
    have "length (fst (take_token cs)) + length (snd (take_token cs)) = length cs"
      using plain by (rule "2.IH"(2))
    then show ?thesis by (simp add: eq)
  qed
qed

function tokens :: "jstring \<Rightarrow> jstring list" where
  \<comment> \<open>\<^verbatim>\<open>input.match(/(?:[^\s"]+|"[^"]*")+/g) || []\<close>\<close>
  "tokens [] = []"
| "tokens (c # cs) =
     (if fst (take_token (c # cs)) = [] then tokens cs
      else fst (take_token (c # cs)) # tokens (snd (take_token (c # cs))))"
  by pat_completeness auto
termination
proof (relation "measure length", goal_cases)
  case 1
  show ?case by simp
next
  case (2 c cs)
  show ?case by simp
next
  case (3 c cs)
  obtain t r where tr: "take_token (c # cs) = (t, r)"
    by (cases "take_token (c # cs)")
  with 3 have "t \<noteq> []" by simp
  moreover from take_token_length [of "c # cs"] tr have "length t + length r = Suc (length cs)"
    by simp
  ultimately show ?case by (cases t) (simp_all add: tr)
qed

declare tokens.simps [simp del]

definition strip_quotes :: "jstring \<Rightarrow> jstring" where
  \<comment> \<open>\<^verbatim>\<open>arg.replace(/^"|"$/g, '')\<close>\<close>
  "strip_quotes s =
     (let s1 = (if s \<noteq> [] \<and> hd s = quote then tl s else s)
      in if s1 \<noteq> [] \<and> last s1 = quote then butlast s1 else s1)"

definition parseCommand :: "jstring \<Rightarrow> jstring \<times> jstring list" where
  "parseCommand input =
     (let parts = tokens input
      in (if parts = [] then [] else hd parts, map strip_quotes (tl parts)))"

definition shellFeatures :: "jstring list" where
  "shellFeatures = [js ''|'', js ''>'', js ''<'', js ''&&'', js ''||'', js '';'', [0x60], js ''$'']"

definition containsShellFeatures :: "jstring \<Rightarrow> bool" where
  "containsShellFeatures input = list_ex (\<lambda>feature. includes_str feature input) shellFeatures"

subsection \<open>Numbers\<close>

definition parseInt :: "jstring \<Rightarrow> int option" where
  \<comment> \<open>\<^verbatim>\<open>parseInt(s, 10)\<close>: white space, a sign, then the longest run of digits;
      \<^verbatim>\<open>NaN\<close> is \<^term>\<open>None\<close>\<close>
  "parseInt s =
     (let s1 = dropWhile isSpace s;
          negative = (s1 \<noteq> [] \<and> hd s1 = of_char CHR ''-'');
          s2 = (if s1 \<noteq> [] \<and> (hd s1 = of_char CHR ''-'' \<or> hd s1 = of_char CHR ''+'') then tl s1 else s1);
          ds = takeWhile isDigit s2
      in if ds = [] then None
         else Some (if negative then - int (digits_value ds) else int (digits_value ds)))"

subsection \<open>Handlers\<close>

definition first_or :: "jstring list \<Rightarrow> nat \<Rightarrow> jstring \<Rightarrow> jstring" where
  \<comment> \<open>\<^verbatim>\<open>args[i] || d\<close>\<close>
  "first_or args i d = (if i < length args \<and> args ! i \<noteq> [] then args ! i else d)"

definition cmdList :: "runtime \<Rightarrow> handler" where
  "cmdList rt p args =
     (let path = first_or args 0 (js ''.'') in
      case listDirectory rt (vfs p) path (cwd p) of
        Inl e \<Rightarrow> (Inl e, p)
      | Inr entries \<Rightarrow>
          if length entries = 0 then (Inr (out (js ''(empty directory)'')), p)
          else (Inr (out (join nl
                  (map (\<lambda>e. entry_name e @ (if entry_type e = DirectoryT then js ''/'' else []))
                     entries))), p))"

definition cmdOpen :: handler where
  "cmdOpen p args =
     (if length args = 0 then (Inr (out (js ''Current directory: '' @ cwd p)), p)
      else
        let path = args ! 0 in
        case resolvePath (vfs p) path (cwd p) of
          Inl e \<Rightarrow> (Inl e, p)
        | Inr None \<Rightarrow> (Inl (PathNotFound path), p)
        | Inr (Some (NodeV (Directory n dp i ch))) \<Rightarrow>
            (Inr (out (js ''Changed directory to '' @ dp)), p\<lparr>cwd := dp\<rparr>)
        | Inr (Some (NodeV (File n fp c u))) \<Rightarrow>
            (case getProjectIdFromPath (vfs p) fp of
               Inl e \<Rightarrow> (Inl e, p)
             | Inr projectId \<Rightarrow>
                 if truthy_id projectId
                 then (Inr ((out (js ''Opening project: '' @ fp))
                         \<lparr>h_navigation := Some (NavProject (the projectId))\<rparr>), p)
                 else if truthy u
                 then (Inr ((out (js ''Opening: '' @ fp))
                         \<lparr>h_navigation := Some (NavUrl (the u))\<rparr>), p)
                 else (Inr (out (if c \<noteq> [] then c else js ''(empty file)'')), p))
        | Inr (Some (InheritedV k)) \<Rightarrow>
            \<comment> \<open>\<^verbatim>\<open>node.path\<close> is \<^verbatim>\<open>undefined\<close>, and \<^verbatim>\<open>getProjectIdFromPath\<close> calls
                \<^verbatim>\<open>startsWith\<close> on it\<close>
            (Inl (TypeError (js ''Cannot read properties of undefined'')), p))"

definition cmdRead :: handler where
  "cmdRead p args =
     (if length args = 0 then (Inl (MissingArgument (js ''read requires a file path'')), p)
      else case readFile (vfs p) (args ! 0) (cwd p) of
             Inl e \<Rightarrow> (Inl e, p)
           | Inr c \<Rightarrow> (Inr (out c), p))"

definition tree_depth :: "jstring list \<Rightarrow> int option" where
  \<comment> \<open>\<^verbatim>\<open>args[1] ? parseInt(args[1], 10) : 3\<close>\<close>
  "tree_depth args = (if 1 < length args \<and> args ! 1 \<noteq> [] then parseInt (args ! 1) else Some 3)"

definition cmdTree :: handler where
  "cmdTree p args =
     (let path = first_or args 0 (js ''.'') in
      case tree_depth args of
        None \<Rightarrow> (Inl InvalidDepth, p)
      | Some depth \<Rightarrow>
          if depth < 1 then (Inl InvalidDepth, p)
          else case getTree (vfs p) path depth (cwd p) of
                 Inl e \<Rightarrow> (Inl e, p)
               | Inr tree \<Rightarrow> (Inr (out tree), p))"

definition search_lines :: "search_result list \<Rightarrow> jstring list" where
  \<comment> \<open>what \<^verbatim>\<open>results.forEach((result, i) => ...)\<close> pushes\<close>
  "search_lines results =
     concat (map (\<lambda>(i, r).
         [js ''['' @ show_nat (i + 1) @ js ''] '' @ result_path r, js ''    '' @ snippet r]
         @ (if i < length results - 1 then [[]] else []))
       (enumerate_from0 results))"

definition cmdSearch :: "runtime \<Rightarrow> handler" where
  "cmdSearch rt p args =
     (if length args = 0 then (Inl (MissingArgument (js ''search requires a keyword'')), p)
      else
        let keyword = join (js '' '') args in
        case search rt (vfs p) keyword of
          Inl e \<Rightarrow> (Inl e, p)
        | Inr results \<Rightarrow>
            if length results = 0 then (Inr (out (js ''No results found for: '' @ keyword)), p)
            else (Inr (out (join nl
                    ((js ''Found '' @ show_nat (length results) @ js '' result(s) for: '' @ keyword @ nl)
                     # search_lines results))), p))"

definition helpText :: jstring where
  "helpText = lines
     [js ''Console Mode - Available Commands'',
      [],
      js ''NAVIGATION:'',
      js ''  list [path]          List directory contents (alias: ls, dir)'',
      js ''  open <path>          Navigate to directory or open file (alias: cd)'',
      js ''  cwd                  Show current working directory (alias: pwd)'',
      [],
      js ''FILE OPERATIONS:'',
      js ''  read <path>          Read file contents (alias: cat)'',
      js ''  tree [path] [depth]  Display tree structure (default depth: 3)'',
      [],
      js ''SEARCH:'',
      js ''  search <keyword>     Search for keyword across all content'',
      [],
      js ''UTILITY:'',
      js ''  help                 Display this help message'',
      js ''  clear                Clear console output'',
      js ''  exit                 Close console (alias: quit)'',
      [],
      js ''PATH NOTATION:'',
      js ''  /                    Root directory'',
      js ''  .                    Current directory'',
      js ''  ..                   Parent directory'',
      js ''  /absolute/path       Absolute path from root'',
      js ''  relative/path        Relative to current directory'',
      [],
      js ''FILESYSTEM STRUCTURE:'',
      js ''  /base/               About, contact, resume'',
      js ''  /projects/           Project directories'',
      js ''  /meta/               System information'',
      [],
      js ''KEYBOARD SHORTCUTS:'',
      (js ''  Ctrl+'') @ [0x60] @ js ''               Toggle console'',
      js ''  Ctrl+L               Clear screen'',
      js ''  Esc                  Close console'',
      js ''  '' @ [0x2191] @ js ''/'' @ [0x2193]
        @ js ''                  Navigate command history'',
      js ''  Tab                  Autocomplete (coming soon)'',
      [],
      js ''NOTE: This is a read-only portfolio system. Shell features like pipes,'',
      js ''redirection, and command chaining are not supported.'']"

definition cmdHelp :: handler where
  "cmdHelp p args = (Inr (out helpText), p)"

definition cmdClear :: handler where
  "cmdClear p args = (Inr ((out [])\<lparr>h_clear := True\<rparr>), p)"

definition cmdCwd :: handler where
  "cmdCwd p args = (Inr (out (cwd p)), p)"

definition cmdExit :: handler where
  "cmdExit p args = (Inr ((out (js ''Closing console...''))\<lparr>h_exit := True\<rparr>), p)"

definition commands :: "runtime \<Rightarrow> (jstring \<times> handler) list" where
  "commands rt =
     [(js ''list'', cmdList rt), (js ''open'', cmdOpen), (js ''read'', cmdRead), (js ''tree'', cmdTree),
      (js ''search'', cmdSearch rt), (js ''help'', cmdHelp), (js ''clear'', cmdClear), (js ''cwd'', cmdCwd),
      (js ''exit'', cmdExit)]"

subsection \<open>Dispatch\<close>

text \<open>
  \<^verbatim>\<open>this.aliases[command] || command\<close> and \<^verbatim>\<open>this.commands[canonicalCommand]\<close> are
  lookups in object literals.  For a command word that names an inherited property the
  first lookup yields a function or the prototype, whose string form is no key of
  \<^verbatim>\<open>commands\<close>, so the word is an unknown command, as it is for the association lists.
\<close>

definition shell_rejection :: command_result where
  "shell_rejection =
     \<lparr>res_output = js ''Error: shell features are not supported. This console exposes a read-only portfolio system.'',
      res_error = True, res_navigation = None, res_exit = False\<rparr>"

definition unknown_command :: "jstring \<Rightarrow> command_result" where
  "unknown_command command =
     \<lparr>res_output = js ''Error: unknown command: '' @ command @ js ''. Type '' @ [0x27] @ js ''help''
               @ [0x27] @ js '' for available commands.'',
      res_error = True, res_navigation = None, res_exit = False\<rparr>"

definition execute :: "runtime \<Rightarrow> parser \<Rightarrow> jstring \<Rightarrow> command_result \<times> parser" where
  "execute rt p input =
     (if input = [] \<or> length (trim input) = 0
      then (\<lparr>res_output = [], res_error = False, res_navigation = None, res_exit = False\<rparr>, p)
      else
        let trimmed = trim input;
            p1 = p\<lparr>history := history p @ [trimmed]\<rparr>
        in if containsShellFeatures trimmed then (shell_rejection, p1)
           else
             let command = fst (parseCommand trimmed);
                 args = snd (parseCommand trimmed);
                 canonicalCommand = (case map_of aliases command of Some c \<Rightarrow> c | None \<Rightarrow> command)
             in case map_of (commands rt) canonicalCommand of
                  None \<Rightarrow> (unknown_command command, p1)
                | Some handler \<Rightarrow>
                    (case handler p1 args of
                       (Inr r, p2) \<Rightarrow>
                         (\<lparr>res_output = h_output r, res_error = False,
                           res_navigation = h_navigation r, res_exit = h_exit r\<rparr>, p2)
                     | (Inl e, p2) \<Rightarrow>
                         (\<lparr>res_output = js ''Error: '' @ message e, res_error = True,
                           res_navigation = None, res_exit = False\<rparr>, p2)))"

section \<open>Properties of the command interpreter\<close>

subsection \<open>A runtime for the examples\<close>

text \<open>
  The examples are evaluated in the following runtime.  Its \<^verbatim>\<open>toLowerCase\<close> maps the
  letters \<^verbatim>\<open>A-Z\<close> to \<^verbatim>\<open>a-z\<close> and keeps every other code unit, which is what every engine
  does on the strings of the examples: they consist of ASCII characters and of the em dash,
  which has no case.  Its \<^verbatim>\<open>localeCompare\<close> is the order of the code units; the root
  collation, and with it the English one, orders the names of the examples in the same way,
  as they consist of lower-case letters, digits, hyphens and full stops.
\<close>

definition lowerUnit :: "codeunit \<Rightarrow> codeunit" where
  "lowerUnit c = (if 0x41 \<le> c \<and> c \<le> 0x5A then c + 0x20 else c)"

definition compareUnits :: "jstring \<Rightarrow> jstring \<Rightarrow> int" where
  "compareUnits a b = (if a < b then - 1 else if a = b then 0 else 1)"

definition example_runtime :: runtime where
  "example_runtime = \<lparr>toLowerCase = map lowerUnit, localeCompare = compareUnits\<rparr>"

definition example_constants :: constants where
  \<comment> \<open>values for the four strings of \<^verbatim>\<open>CONSTANTS\<close>, for the examples\<close>
  "example_constants =
     \<lparr>RESUME_URL = js ''https://example.com/resume.pdf'', EMAIL = js ''me@example.com'',
      GITHUB_URL = js ''https://github.com/example'', LINKEDIN_URL = js ''https://linkedin.com/in/example''\<rparr>"

subsection \<open>Blank input\<close>

lemma trim_all_space: "list_all isSpace s \<Longrightarrow> trim s = []"
proof -
  assume "list_all isSpace s"
  then have "dropWhile isSpace s = []"
    by (simp add: list_all_iff dropWhile_eq_Nil_conv)
  then show ?thesis
    unfolding trim_def by (simp only: rev.simps dropWhile.simps)
qed

lemma trim_Nil [simp]: "trim [] = []"
  by (simp add: trim_def)

text \<open>
  Claim C10 (blank input is a no-op).  For every input line that consists of white space
  only, the empty line included, \<^verbatim>\<open>execute\<close> returns the empty result that is no error
  and leaves the session state as it was: nothing is appended to the history and the
  current directory is the same.  White space is what \<^verbatim>\<open>String.prototype.trim\<close> strips,
  the no-break space, the Unicode spaces and the line separators included.
\<close>

theorem execute_blank_noop:
  "list_all isSpace input \<longrightarrow>
     execute rt p input
       = (\<lparr>res_output = [], res_error = False, res_navigation = None, res_exit = False\<rparr>, p)"
  by (simp add: execute_def trim_all_space)

theorem execute_blank_noop_witness:
  "list_all isSpace [0x20, 0x09, 0xA0, 0x2003, 0x2028, 0x3000, 0xFEFF] \<and>
     execute example_runtime (new_parser new_vfs) [0x20, 0x09, 0xA0, 0x2003, 0x2028, 0x3000, 0xFEFF]
       = (\<lparr>res_output = [], res_error = False, res_navigation = None, res_exit = False\<rparr>,
          new_parser new_vfs)
   \<and> history (snd (execute example_runtime (new_parser new_vfs)
         [0x20, 0x09, 0xA0, 0x2003, 0x2028, 0x3000, 0xFEFF])) = []
   \<and> cwd (snd (execute example_runtime (new_parser new_vfs)
         [0x20, 0x09, 0xA0, 0x2003, 0x2028, 0x3000, 0xFEFF])) = js ''/''"
proof -
  have blank: "list_all isSpace [0x20, 0x09, 0xA0, 0x2003, 0x2028, 0x3000, 0xFEFF]"
    by (simp add: isSpace_def)
  with execute_blank_noop [of "[0x20, 0x09, 0xA0, 0x2003, 0x2028, 0x3000, 0xFEFF]"
      example_runtime "new_parser new_vfs"]
  show ?thesis by (simp add: new_parser_def)
qed

subsection \<open>The rejection of shell syntax\<close>

lemma includes_str_iff: "includes_str f s \<longleftrightarrow> (\<exists>pre post. s = pre @ f @ post)"
proof (induction s)
  case Nil
  show ?case by auto
next
  case (Cons c cs)
  show ?case
  proof
    assume "includes_str f (c # cs)"
    then consider "startsWith f (c # cs)" | "includes_str f cs" by auto
    then show "\<exists>pre post. c # cs = pre @ f @ post"
    proof cases
      case 1
      then have "c # cs = [] @ f @ drop (length f) (c # cs)"
        by (metis append_Nil append_take_drop_id startsWith_def)
      then show ?thesis by blast
    next
      case 2
      with Cons obtain pre post where "cs = pre @ f @ post" by blast
      then have "c # cs = (c # pre) @ f @ post" by simp
      then show ?thesis by blast
    qed
  next
    assume "\<exists>pre post. c # cs = pre @ f @ post"
    then obtain pre post where eq: "c # cs = pre @ f @ post" by blast
    show "includes_str f (c # cs)"
    proof (cases pre)
      case Nil
      with eq have "startsWith f (c # cs)" by (simp add: startsWith_def)
      then show ?thesis by simp
    next
      case (Cons a pre')
      with eq have "cs = pre' @ f @ post" by simp
      with Cons.IH have "includes_str f cs" by blast
      then show ?thesis by simp
    qed
  qed
qed


lemma includes_str_dropWhile:
  assumes "includes_str f s" and "f \<noteq> []" and "\<not> isSpace (hd f)"
  shows "includes_str f (dropWhile isSpace s)"
  using assms(1)
proof (induction s)
  case Nil
  then show ?case by simp
next
  case (Cons c cs)
  show ?case
  proof (cases "isSpace c")
    case True
    with assms(2,3) have "\<not> startsWith f (c # cs)"
      by (cases f) (auto simp: startsWith_def)
    with Cons.prems have "includes_str f cs" by simp
    then have "includes_str f (dropWhile isSpace cs)" by (rule Cons.IH)
    with True show ?thesis by simp
  next
    case False
    with Cons.prems show ?thesis by simp
  qed
qed

lemma includes_str_rev: "includes_str f s \<Longrightarrow> includes_str (rev f) (rev s)"
proof -
  assume "includes_str f s"
  then obtain pre post where "s = pre @ f @ post"
    unfolding includes_str_iff by blast
  then have "rev s = rev post @ rev f @ rev pre" by simp
  then show ?thesis unfolding includes_str_iff by blast
qed

lemma includes_str_trim:
  assumes "includes_str f s" and "f \<noteq> []" and "\<not> isSpace (hd f)" and "\<not> isSpace (last f)"
  shows "includes_str f (trim s)"
proof -
  from assms(1-3) have "includes_str f (dropWhile isSpace s)"
    by (rule includes_str_dropWhile)
  then have "includes_str (rev f) (rev (dropWhile isSpace s))"
    by (rule includes_str_rev)
  moreover from assms(2,4) have "rev f \<noteq> []" and "\<not> isSpace (hd (rev f))"
    by (simp_all add: hd_rev)
  ultimately have "includes_str (rev f) (dropWhile isSpace (rev (dropWhile isSpace s)))"
    by (intro includes_str_dropWhile)
  then have "includes_str (rev (rev f)) (rev (dropWhile isSpace (rev (dropWhile isSpace s))))"
    by (rule includes_str_rev)
  then show ?thesis by (simp add: trim_def)
qed

lemma shellFeatures_solid:
  "feature \<in> set shellFeatures \<Longrightarrow>
     feature \<noteq> [] \<and> \<not> isSpace (hd feature) \<and> \<not> isSpace (last feature)"
  by (auto simp: shellFeatures_def isSpace_def)

lemma containsShellFeatures_trim:
  "containsShellFeatures input \<Longrightarrow> containsShellFeatures (trim input) \<and> trim input \<noteq> []"
proof -
  assume "containsShellFeatures input"
  then obtain feature where f: "feature \<in> set shellFeatures" and inc: "includes_str feature input"
    by (auto simp: containsShellFeatures_def list_ex_iff)
  from inc shellFeatures_solid [OF f] have t: "includes_str feature (trim input)"
    by (intro includes_str_trim) simp_all
  with f have "containsShellFeatures (trim input)"
    by (auto simp: containsShellFeatures_def list_ex_iff)
  moreover from t shellFeatures_solid [OF f] have "trim input \<noteq> []"
    by (cases "trim input") auto
  ultimately show ?thesis by simp
qed

text \<open>
  Claim C5 (shell-syntax rejection gate).  For every input line that contains one of the
  disallowed strings (the pipe, the angle brackets, \<^verbatim>\<open>&&\<close>, \<^verbatim>\<open>||\<close>, the semicolon, the
  backtick and the dollar sign), \<^verbatim>\<open>execute\<close> returns the error result for unsupported
  shell syntax.  The result and the new state are the same for every filesystem and every
  current directory, so no token was read and no handler was run; the state changes only
  in that the trimmed input is appended to the history.
\<close>

theorem execute_rejects_shell_syntax:
  "list_ex (\<lambda>feature. includes_str feature input) [js ''|'', js ''>'', js ''<'', js ''&&'', js ''||'', js '';'', [0x60], js ''$'']
   \<longrightarrow>
     execute rt p input
       = (\<lparr>res_output = js ''Error: shell features are not supported. This console exposes a read-only portfolio system.'',
           res_error = True, res_navigation = None, res_exit = False\<rparr>,
          p\<lparr>history := history p @ [trim input]\<rparr>)"
proof
  assume "list_ex (\<lambda>feature. includes_str feature input)
            [js ''|'', js ''>'', js ''<'', js ''&&'', js ''||'', js '';'', [0x60], js ''$'']"
  then have "containsShellFeatures input"
    by (simp add: containsShellFeatures_def shellFeatures_def)
  then have t: "containsShellFeatures (trim input)" and ne: "trim input \<noteq> []"
    by (simp_all add: containsShellFeatures_trim)
  from ne have "input \<noteq> []" by auto
  with t ne show "execute rt p input
       = (\<lparr>res_output = js ''Error: shell features are not supported. This console exposes a read-only portfolio system.'',
           res_error = True, res_navigation = None, res_exit = False\<rparr>,
          p\<lparr>history := history p @ [trim input]\<rparr>)"
    by (simp add: execute_def Let_def shell_rejection_def)
qed


theorem execute_rejects_shell_syntax_witness:
  "list_ex (\<lambda>feature. includes_str feature (js ''ls | grep x''))
     [js ''|'', js ''>'', js ''<'', js ''&&'', js ''||'', js '';'', [0x60], js ''$'']
   \<and> execute example_runtime (new_parser new_vfs) (js ''ls | grep x'')
       = (\<lparr>res_output = js ''Error: shell features are not supported. This console exposes a read-only portfolio system.'',
           res_error = True, res_navigation = None, res_exit = False\<rparr>,
          \<lparr>vfs = new_vfs, cwd = js ''/'', history = [js ''ls | grep x'']\<rparr>)"
proof -
  have pipe: "list_ex (\<lambda>feature. includes_str feature (js ''ls | grep x''))
     [js ''|'', js ''>'', js ''<'', js ''&&'', js ''||'', js '';'', [0x60], js ''$'']"
    by (simp add: startsWith_def)
  have "trim (js ''ls | grep x'') = js ''ls | grep x''"
    by (simp add: trim_def isSpace_def)
  with pipe execute_rejects_shell_syntax [of "js ''ls | grep x''" example_runtime "new_parser new_vfs"]
  show ?thesis by (simp add: new_parser_def)
qed

subsection \<open>Dispatch: history and current directory\<close>

lemma cmdList_frame: "cmdList rt p args = (r, p') \<Longrightarrow> p' = p"
  by (auto simp: cmdList_def Let_def split: sum.splits if_splits)

lemma cmdRead_frame: "cmdRead p args = (r, p') \<Longrightarrow> p' = p"
  by (auto simp: cmdRead_def split: sum.splits if_splits)

lemma cmdTree_frame: "cmdTree p args = (r, p') \<Longrightarrow> p' = p"
  by (auto simp: cmdTree_def Let_def split: sum.splits option.splits if_splits)

lemma cmdSearch_frame: "cmdSearch rt p args = (r, p') \<Longrightarrow> p' = p"
  by (auto simp: cmdSearch_def Let_def split: sum.splits if_splits)

lemma cmdOpen_frame:
  "cmdOpen p args = (r, p') \<Longrightarrow>
     history p' = history p \<and> vfs p' = vfs p \<and> (isl r \<longrightarrow> p' = p)"
  by (auto simp: cmdOpen_def Let_def
      split: sum.splits option.splits jsval.splits node.splits if_splits)

lemma handler_frame:
  assumes "(name, h) \<in> set (commands rt)" and "h p args = (r, p')"
  shows "history p' = history p \<and> vfs p' = vfs p \<and> (isl r \<longrightarrow> p' = p)"
proof -
  from assms(1) consider "h = cmdList rt" | "h = cmdOpen" | "h = cmdRead" | "h = cmdTree"
    | "h = cmdSearch rt" | "h = cmdHelp" | "h = cmdClear" | "h = cmdCwd" | "h = cmdExit"
    by (auto simp: commands_def)
  then show ?thesis
  proof cases
    case 1
    with assms(2) show ?thesis by (auto dest: cmdList_frame)
  next
    case 2
    with assms(2) cmdOpen_frame [of p args r p'] show ?thesis by simp
  next
    case 3
    with assms(2) show ?thesis by (auto dest: cmdRead_frame)
  next
    case 4
    with assms(2) show ?thesis by (auto dest: cmdTree_frame)
  next
    case 5
    with assms(2) show ?thesis by (auto dest: cmdSearch_frame)
  next
    case 6
    with assms(2) show ?thesis by (auto simp: cmdHelp_def)
  next
    case 7
    with assms(2) show ?thesis by (auto simp: cmdClear_def)
  next
    case 8
    with assms(2) show ?thesis by (auto simp: cmdCwd_def)
  next
    case 9
    with assms(2) show ?thesis by (auto simp: cmdExit_def)
  qed
qed

lemma execute_effect:
  "trim input \<noteq> [] \<longrightarrow>
     history (snd (execute rt p input)) = history p @ [trim input]
   \<and> vfs (snd (execute rt p input)) = vfs p
   \<and> (res_error (fst (execute rt p input)) \<longrightarrow>
        snd (execute rt p input) = p\<lparr>history := history p @ [trim input]\<rparr>)"
proof
  assume ne: "trim input \<noteq> []"
  then have ine: "input \<noteq> []" by auto
  let ?p1 = "p\<lparr>history := history p @ [trim input]\<rparr>"
  let ?goal = "history (snd (execute rt p input)) = history p @ [trim input]
   \<and> vfs (snd (execute rt p input)) = vfs p
   \<and> (res_error (fst (execute rt p input)) \<longrightarrow>
        snd (execute rt p input) = p\<lparr>history := history p @ [trim input]\<rparr>)"
  show ?goal
  proof (cases "containsShellFeatures (trim input)")
    case True
    with ne ine show ?thesis by (simp add: execute_def Let_def)
  next
    case False
    let ?command = "fst (parseCommand (trim input))"
    let ?args = "snd (parseCommand (trim input))"
    let ?canonical = "case map_of aliases ?command of Some c \<Rightarrow> c | None \<Rightarrow> ?command"
    show ?thesis
    proof (cases "map_of (commands rt) ?canonical")
      case None
      with False ne ine show ?thesis by (simp add: execute_def Let_def)
    next
      case (Some h)
      then have mem: "(?canonical, h) \<in> set (commands rt)" by (rule map_of_SomeD)
      obtain r p2 where run: "h ?p1 ?args = (r, p2)" by (cases "h ?p1 ?args")
      from handler_frame [OF mem run]
      have frame: "history p2 = history ?p1" "vfs p2 = vfs ?p1" "isl r \<longrightarrow> p2 = ?p1"
        by simp_all
      show ?thesis
      proof (cases r)
        case (Inl e)
        with frame have "p2 = ?p1" by simp
        with False ne ine Some run Inl show ?thesis by (simp add: execute_def Let_def)
      next
        case (Inr res)
        with False ne ine Some run frame show ?thesis by (simp add: execute_def Let_def)
      qed
    qed
  qed
qed

lemma execute_examples [simplified]:
  "execute example_runtime (new_parser (initialize example_runtime example_constants new_vfs None)) (js ''cd /nowhere'')
   = (\<lparr>res_output = js ''Error: path not found: /nowhere'', res_error = True,
        res_navigation = None, res_exit = False\<rparr>,
      \<lparr>vfs = initialize example_runtime example_constants new_vfs None, cwd = js ''/'',
        history = [js ''cd /nowhere'']\<rparr>)"
proof -
  have toks [simplified]: "tokens (js ''cd /nowhere'') = [js ''cd'', js ''/nowhere'']"
    by (simp add: tokens.simps take_token.simps Let_def quote_def isSpace_def)
  have trimmed [simplified]: "trim (js ''cd /nowhere'') = js ''cd /nowhere''"
    by (simp add: trim_def isSpace_def)
  show ?thesis
    by (simp add: execute_def trimmed Let_def containsShellFeatures_def shellFeatures_def
        startsWith_def parseCommand_def toks strip_quotes_def quote_def aliases_def commands_def
        cmdOpen_def new_parser_def resolvePath_def initialize_def new_vfs_def
        resolveAbsolutePath_def normalizePath_def segments_def buildFileTree_def get_child_def
        object_prototype_keys_def)
qed

text \<open>
  Claim C2 (command-dispatch atomicity), as the code has it.  The claim speaks of every input
  line and of the raw line; \<^verbatim>\<open>execute\<close> returns early on a blank line and records
  \<^verbatim>\<open>input.trim()\<close>.  For every session state and every input line that is not blank,
  that is, whose trimmed form is not empty: the trimmed line is appended to the history
  exactly once, whatever becomes of the command (rejected, unknown, failing or successful);
  the filesystem is the same; and when the result is an error the current directory is
  unchanged, indeed the whole state but for the new history entry.  For a blank line the
  state is unchanged: the line is not recorded.
\<close>

theorem execute_history_cwd:
  "(trim input \<noteq> [] \<longrightarrow>
      history (snd (execute rt p input)) = history p @ [trim input]
    \<and> vfs (snd (execute rt p input)) = vfs p
    \<and> (res_error (fst (execute rt p input)) \<longrightarrow>
         cwd (snd (execute rt p input)) = cwd p
         \<and> snd (execute rt p input) = p\<lparr>history := history p @ [trim input]\<rparr>))
   \<and> (trim input = [] \<longrightarrow> snd (execute rt p input) = p)"
proof (rule conjI)
  show "trim input = [] \<longrightarrow> snd (execute rt p input) = p"
    by (simp add: execute_def)
next
  show "trim input \<noteq> [] \<longrightarrow>
      history (snd (execute rt p input)) = history p @ [trim input]
    \<and> vfs (snd (execute rt p input)) = vfs p
    \<and> (res_error (fst (execute rt p input)) \<longrightarrow>
         cwd (snd (execute rt p input)) = cwd p
         \<and> snd (execute rt p input) = p\<lparr>history := history p @ [trim input]\<rparr>)"
  proof
    assume ne: "trim input \<noteq> []"
    from execute_effect [of input rt p] ne
    have h: "history (snd (execute rt p input)) = history p @ [trim input]"
      and v: "vfs (snd (execute rt p input)) = vfs p"
      and e: "res_error (fst (execute rt p input)) \<longrightarrow>
          snd (execute rt p input) = p\<lparr>history := history p @ [trim input]\<rparr>"
      by blast+
    have "cwd (snd (execute rt p input)) = cwd p" if "res_error (fst (execute rt p input))"
    proof -
      from e that have "snd (execute rt p input) = p\<lparr>history := history p @ [trim input]\<rparr>"
        by blast
      then show ?thesis by simp
    qed
    with h v e show "history (snd (execute rt p input)) = history p @ [trim input]
      \<and> vfs (snd (execute rt p input)) = vfs p
      \<and> (res_error (fst (execute rt p input)) \<longrightarrow>
           cwd (snd (execute rt p input)) = cwd p
           \<and> snd (execute rt p input) = p\<lparr>history := history p @ [trim input]\<rparr>)"
      by blast
  qed
qed

theorem execute_history_cwd_witness:
  "trim (js ''cd /nowhere'') \<noteq> []
   \<and> res_error (fst (execute example_runtime
         (new_parser (initialize example_runtime example_constants new_vfs None))
         (js ''cd /nowhere'')))
   \<and> history (snd (execute example_runtime
         (new_parser (initialize example_runtime example_constants new_vfs None))
         (js ''cd /nowhere'')))
       = [js ''cd /nowhere'']
   \<and> cwd (snd (execute example_runtime
         (new_parser (initialize example_runtime example_constants new_vfs None))
         (js ''cd /nowhere'')))
       = js ''/''
   \<and> trim [0x20, 0xA0, 0x09] = []
   \<and> snd (execute example_runtime
         (new_parser (initialize example_runtime example_constants new_vfs None))
         [0x20, 0xA0, 0x09])
       = new_parser (initialize example_runtime example_constants new_vfs None)"
proof -
  let ?p = "new_parser (initialize example_runtime example_constants new_vfs None)"
  have blank: "trim [0x20, 0xA0, 0x09] = []"
    by (simp add: trim_def isSpace_def)
  from execute_history_cwd [of "[0x20, 0xA0, 0x09]" example_runtime ?p] blank
  have same: "snd (execute example_runtime ?p [0x20, 0xA0, 0x09]) = ?p"
    by blast
  have ne: "trim (js ''cd /nowhere'') \<noteq> []" and t: "trim (js ''cd /nowhere'') = js ''cd /nowhere''"
    by (simp_all add: trim_def isSpace_def)
  have err: "res_error (fst (execute example_runtime ?p (js ''cd /nowhere'')))"
    by (simp add: execute_examples)
  from execute_history_cwd [of "js ''cd /nowhere''" example_runtime ?p] ne err
  have "history (snd (execute example_runtime ?p (js ''cd /nowhere''))) = history ?p @ [trim (js ''cd /nowhere'')]"
    and "cwd (snd (execute example_runtime ?p (js ''cd /nowhere''))) = cwd ?p"
    by blast+
  with ne err t blank same show ?thesis by (simp add: new_parser_def)
qed

text \<open>
  The claim as it is written fails on a line with white space around the command, where the
  history receives the trimmed line and not the raw one, and on the empty line, which is
  not recorded at all.
\<close>

theorem execute_history_raw_counterexample:
  "history (snd (execute example_runtime (new_parser new_vfs) (js ''  pwd  '')))
     \<noteq> history (new_parser new_vfs) @ [js ''  pwd  '']
   \<and> history (snd (execute example_runtime (new_parser new_vfs) []))
     \<noteq> history (new_parser new_vfs) @ [[]]"
proof -
  have t: "trim (js ''  pwd  '') = js ''pwd''"
    by (simp add: trim_def isSpace_def)
  with execute_effect [of "js ''  pwd  ''" example_runtime "new_parser new_vfs"]
  have "history (snd (execute example_runtime (new_parser new_vfs) (js ''  pwd  ''))) = [js ''pwd'']"
    by (simp add: new_parser_def)
  moreover have "history (snd (execute example_runtime (new_parser new_vfs) [])) = []"
    by (simp add: execute_def new_parser_def)
  ultimately show ?thesis by (simp add: new_parser_def)
qed

section \<open>Properties of the virtual filesystem\<close>

subsection \<open>The resolver\<close>

lemma walk_append:
  "walk x (ps @ qs) = (case walk x ps of None \<Rightarrow> None | Some y \<Rightarrow> walk y qs)"
  by (induction ps arbitrary: x) (auto split: jsval.splits node.splits option.splits)

lemma walk_file: "walk (NodeV (File n fp c u)) (q # qs) = None"
  by simp

lemma walk_missing:
  "map_of ch q = None \<Longrightarrow> q \<notin> set object_prototype_keys \<Longrightarrow>
   walk (NodeV (Directory n dp i ch)) (q # qs) = None"
  by (simp add: get_child_def)

lemma resolvePath_initialized:
  "initialized v \<Longrightarrow> root v = Some r \<Longrightarrow>
   resolvePath v path dir = Inr (walk (NodeV r) (segments (resolveAbsolutePath path dir)))"
  by (simp add: resolvePath_def Let_def)

text \<open>
  Claim C4 (resolver totality), as the code has it.  \<^verbatim>\<open>resolvePath\<close> starts with a guard
  that throws when the filesystem has not been initialized, so the claim holds from
  initialization on.  For an initialized filesystem with root \<open>r\<close>, every path and every
  current directory: \<^verbatim>\<open>resolvePath\<close> returns a value (a node, an inherited property, or
  not-found) and never an error, and the value is a function of the tree, the path and the
  directory alone; a path with no segments resolves to the root; a path that continues
  after a file is not found; and a path that names a child which the directory does not
  have is not found, when the name is not one of the property names that every object
  inherits.
\<close>

theorem resolvePath_total:
  "initialized v \<and> root v = Some r \<longrightarrow>
     resolvePath v path dir = Inr (walk (NodeV r) (segments (resolveAbsolutePath path dir)))
   \<and> (segments (resolveAbsolutePath path dir) = [] \<longrightarrow>
        resolvePath v path dir = Inr (Some (NodeV r)))
   \<and> (segments (resolveAbsolutePath path dir) = ps @ q # qs
        \<and> walk (NodeV r) ps = Some (NodeV (File n fp c u)) \<longrightarrow>
        resolvePath v path dir = Inr None)
   \<and> (segments (resolveAbsolutePath path dir) = ps @ q # qs
        \<and> walk (NodeV r) ps = Some (NodeV (Directory n dp i ch))
        \<and> map_of ch q = None \<and> q \<notin> set object_prototype_keys \<longrightarrow>
        resolvePath v path dir = Inr None)"
proof (intro impI conjI)
  assume "initialized v \<and> root v = Some r"
  then show res: "resolvePath v path dir
      = Inr (walk (NodeV r) (segments (resolveAbsolutePath path dir)))"
    by (simp add: resolvePath_initialized)
  {
    assume "segments (resolveAbsolutePath path dir) = []"
    with res show "resolvePath v path dir = Inr (Some (NodeV r))" by simp
  next
    assume "segments (resolveAbsolutePath path dir) = ps @ q # qs
        \<and> walk (NodeV r) ps = Some (NodeV (File n fp c u))"
    with res show "resolvePath v path dir = Inr None"
      by (simp add: walk_append)
  next
    assume "segments (resolveAbsolutePath path dir) = ps @ q # qs
        \<and> walk (NodeV r) ps = Some (NodeV (Directory n dp i ch))
        \<and> map_of ch q = None \<and> q \<notin> set object_prototype_keys"
    with res show "resolvePath v path dir = Inr None"
      by (simp add: walk_append get_child_def)
  }
qed

lemma example_root [simplified]:
  "initialized (initialize example_runtime example_constants new_vfs None)
   \<and> root (initialize example_runtime example_constants new_vfs None) = Some (buildFileTree example_runtime example_constants None)"
  by (simp add: initialize_def new_vfs_def)

lemma resolvePath_inherited_example:
  "resolvePath (initialize example_runtime example_constants new_vfs None) (js ''/toString'') (js ''/'')
   = Inr (Some (InheritedV (js ''toString'')))"
  by (simp add: resolvePath_def initialize_def new_vfs_def resolveAbsolutePath_def normalizePath_def
      startsWith_def segments_def buildFileTree_def get_child_def object_prototype_keys_def)

theorem resolvePath_total_witness:
  "initialized (initialize example_runtime example_constants new_vfs None)
   \<and> root (initialize example_runtime example_constants new_vfs None) = Some (buildFileTree example_runtime example_constants None)
   \<and> segments (resolveAbsolutePath (js ''..'') (js ''/base'')) = []
   \<and> resolvePath (initialize example_runtime example_constants new_vfs None) (js ''..'') (js ''/base'')
       = Inr (Some (NodeV (buildFileTree example_runtime example_constants None)))
   \<and> segments (resolveAbsolutePath (js ''about/x'') (js ''/base'')) = [js ''base'', js ''about''] @ js ''x'' # []
   \<and> walk (NodeV (buildFileTree example_runtime example_constants None)) [js ''base'', js ''about'']
       = Some (NodeV (File (js ''about'') (js ''/base/about'') getAboutContent None))
   \<and> resolvePath (initialize example_runtime example_constants new_vfs None) (js ''about/x'') (js ''/base'') = Inr None
   \<and> segments (resolveAbsolutePath (js ''/nowhere/x'') (js ''/base'')) = [] @ js ''nowhere'' # [js ''x'']
   \<and> map_of [(js ''base'', buildBaseDirectory example_constants),
               (js ''projects'', buildProjectsDirectory example_runtime None),
               (js ''meta'', buildMetaDirectory)] (js ''nowhere'') = None
   \<and> js ''nowhere'' \<notin> set object_prototype_keys
   \<and> resolvePath (initialize example_runtime example_constants new_vfs None) (js ''/nowhere/x'') (js ''/base'') = Inr None"
proof -
  let ?v = "initialize example_runtime example_constants new_vfs None"
  let ?r = "buildFileTree example_runtime example_constants None"
  let ?ch = "[(js ''base'', buildBaseDirectory example_constants),
               (js ''projects'', buildProjectsDirectory example_runtime None),
               (js ''meta'', buildMetaDirectory)]"
  have init: "initialized ?v \<and> root ?v = Some ?r"
    by (rule example_root)
  have s0: "segments (resolveAbsolutePath (js ''..'') (js ''/base'')) = []"
    by (simp add: resolveAbsolutePath_def startsWith_def segments_def resolve_part_def)
  have s1: "segments (resolveAbsolutePath (js ''about/x'') (js ''/base'')) = [js ''base'', js ''about''] @ js ''x'' # []"
    by (simp add: resolveAbsolutePath_def startsWith_def segments_def resolve_part_def)
  have w1: "walk (NodeV ?r) [js ''base'', js ''about'']
       = Some (NodeV (File (js ''about'') (js ''/base/about'') getAboutContent None))"
    by (simp add: buildFileTree_def buildBaseDirectory_def get_child_def)
  have s2: "segments (resolveAbsolutePath (js ''/nowhere/x'') (js ''/base'')) = [] @ js ''nowhere'' # [js ''x'']"
    by (simp add: resolveAbsolutePath_def normalizePath_def startsWith_def segments_def)
  have w2: "walk (NodeV ?r) [] = Some (NodeV (Directory [] (js ''/'') None ?ch))"
    by (simp add: buildFileTree_def)
  have m2: "map_of ?ch (js ''nowhere'') = None" and k2: "js ''nowhere'' \<notin> set object_prototype_keys"
    by (simp_all add: object_prototype_keys_def)
  from resolvePath_total [of ?v ?r "js ''..''" "js ''/base''"] init s0
  have r0: "resolvePath ?v (js ''..'') (js ''/base'') = Inr (Some (NodeV ?r))"
    by blast
  from resolvePath_total [of ?v ?r "js ''about/x''" "js ''/base''" "[js ''base'', js ''about'']" "js ''x''" "[]"
      "js ''about''" "js ''/base/about''" getAboutContent None] init s1 w1
  have r1: "resolvePath ?v (js ''about/x'') (js ''/base'') = Inr None"
    by blast
  from resolvePath_total [where v = ?v and r = ?r and path = "js ''/nowhere/x''" and dir = "js ''/base''"
      and ps = "[]" and q = "js ''nowhere''" and qs = "[js ''x'']" and n = "[]" and dp = "js ''/''"
      and i = None and ch = ?ch] init s2 w2 m2 k2
  have r2: "resolvePath ?v (js ''/nowhere/x'') (js ''/base'') = Inr None"
    by blast
  from init s0 r0 s1 w1 r1 s2 m2 k2 r2 show ?thesis by blast
qed


text \<open>
  The claim as it is written fails before initialization, where the guard throws.
\<close>

theorem resolvePath_uninitialized_counterexample:
  "resolvePath new_vfs (js ''/'') (js ''/'') = Inl FilesystemNotInitialized"
  by (simp add: resolvePath_def new_vfs_def)

subsection \<open>An example tree\<close>

text \<open>
  One project, whose title has an em dash and whose two attachments have the same caption,
  built by the builder; the examples below run on this tree.
\<close>

definition example_attachments :: "attachment list" where
  "example_attachments =
     [\<lparr>url = js ''/img/one.png'', caption = Some (js ''Shot'')\<rparr>,
      \<lparr>url = js ''/img/two.png'', caption = Some (js ''Shot'')\<rparr>]"

definition example_project :: "int \<Rightarrow> project" where
  "example_project i =
     \<lparr>project_id = i, title = js ''Alpha Beta '' @ emdash @ js '' v2'', role = js ''Engineer'',
      description = js ''A demonstration project.'', problem_statement = None,
      architecture_image = None, technical_highlights = None, design_decisions = None,
      impact_metrics = None, attachments = Some example_attachments\<rparr>"

definition example_vfs :: "int \<Rightarrow> vfs" where
  "example_vfs i = initialize example_runtime example_constants new_vfs (Some [example_project i])"

lemma example_slug [simplified]: "generateSlug example_runtime (title (example_project i)) = js ''alpha-beta''"
  by (simp add: example_project_def generateSlug_def example_runtime_def lowerUnit_def
      emdash_def startsWith_def trim_def isSpace_def isSlugChar_def strip_hyphens_def)

definition example_project_children :: "int \<Rightarrow> (jstring \<times> node) list" where
  "example_project_children i =
     [(js ''overview'', File (js ''overview'') (js ''/projects/alpha-beta/overview'')
                       (formatProjectOverview (example_project i)) None),
      (js ''architecture'', File (js ''architecture'') (js ''/projects/alpha-beta/architecture'')
                       (formatProjectArchitecture (example_project i)) None),
      (js ''decisions.log'', File (js ''decisions.log'') (js ''/projects/alpha-beta/decisions.log'')
                       (formatProjectDecisions (example_project i)) None),
      (js ''impact'', File (js ''impact'') (js ''/projects/alpha-beta/impact'')
                       (formatProjectImpact (example_project i)) None),
      (js ''attachments'', buildAttachmentsDirectory example_runtime example_attachments (js ''alpha-beta''))]"

lemma example_projectNode [simplified]:
  "projectNode example_runtime (example_project i)
   = Directory (js ''alpha-beta'') (js ''/projects/alpha-beta'') (Some i) (example_project_children i)"
  by (simp add: projectNode_def example_slug Let_def example_project_children_def)
     (simp add: example_project_def example_attachments_def)

lemma example_tree [simplified]:
  "root (example_vfs i)
   = Some (Directory [] (js ''/'') None
       [(js ''base'', buildBaseDirectory example_constants),
        (js ''projects'', Directory (js ''projects'') (js ''/projects'') None
           [(js ''alpha-beta'', projectNode example_runtime (example_project i))]),
        (js ''meta'', buildMetaDirectory)])
   \<and> initialized (example_vfs i)"
  by (simp add: example_vfs_def initialize_def new_vfs_def buildFileTree_def
      buildProjectsDirectory_def example_slug)

lemma example_resolve_project [simplified]:
  "resolvePath (example_vfs i) (js ''alpha-beta'') (js ''/projects'')
   = Inr (Some (NodeV (Directory (js ''alpha-beta'') (js ''/projects/alpha-beta'') (Some i)
        (example_project_children i))))"
  by (simp add: resolvePath_def example_tree resolveAbsolutePath_def startsWith_def segments_def
      resolve_part_def get_child_def example_projectNode)

lemma example_resolve_about [simplified]:
  "resolvePath (example_vfs i) (js ''/base/about'') (js ''/projects'')
   = Inr (Some (NodeV (File (js ''about'') (js ''/base/about'') getAboutContent None)))"
  by (simp add: resolvePath_def example_tree resolveAbsolutePath_def normalizePath_def
      startsWith_def segments_def get_child_def buildBaseDirectory_def)

subsection \<open>Listing\<close>

text \<open>
  The language requires of \<^verbatim>\<open>localeCompare\<close> that it is a consistent comparison function on
  all strings, whatever the locale: it orders any two strings, in one way only, and
  transitively.  The order itself belongs to the locale.
\<close>

definition consistent :: "(jstring \<Rightarrow> jstring \<Rightarrow> int) \<Rightarrow> bool" where
  "consistent cmp =
     ((\<forall>a b. (cmp a b < 0) = (0 < cmp b a))
      \<and> (\<forall>a b c. cmp a b \<le> 0 \<longrightarrow> cmp b c \<le> 0 \<longrightarrow> cmp a c \<le> 0))"

definition entry_le :: "runtime \<Rightarrow> entry \<Rightarrow> entry \<Rightarrow> bool" where
  \<comment> \<open>the order the comparator stands for: \<open>a\<close> may come before \<open>b\<close>\<close>
  "entry_le rt a b = (compareEntries rt a b \<le> 0)"

lemma consistent_total: "consistent cmp \<Longrightarrow> cmp a b \<le> 0 \<or> cmp b a \<le> 0"
proof -
  assume "consistent cmp"
  then have "(cmp b a < 0) = (0 < cmp a b)"
    unfolding consistent_def by blast
  then show ?thesis by linarith
qed

lemma consistent_trans: "consistent cmp \<Longrightarrow> cmp a b \<le> 0 \<Longrightarrow> cmp b c \<le> 0 \<Longrightarrow> cmp a c \<le> 0"
  unfolding consistent_def by blast

lemma consistent_compareUnits: "consistent compareUnits"
  unfolding consistent_def compareUnits_def by auto

lemma entry_le_iff:
  "entry_le rt a b \<longleftrightarrow>
     (entry_type a = DirectoryT \<and> entry_type b = FileT)
     \<or> (entry_type a = entry_type b \<and> localeCompare rt (entry_name a) (entry_name b) \<le> 0)"
  by (cases "entry_type a"; cases "entry_type b")
     (auto simp: entry_le_def compareEntries_def)

lemma entry_le_total:
  "consistent (localeCompare rt) \<Longrightarrow> entry_le rt a b \<or> entry_le rt b a"
  using consistent_total [of "localeCompare rt" "entry_name a" "entry_name b"]
  by (cases "entry_type a"; cases "entry_type b") (auto simp: entry_le_iff)

lemma entry_le_trans:
  "consistent (localeCompare rt) \<Longrightarrow> entry_le rt a b \<Longrightarrow> entry_le rt b c \<Longrightarrow> entry_le rt a c"
  using consistent_trans [of "localeCompare rt" "entry_name a" "entry_name b" "entry_name c"]
  by (cases "entry_type a"; cases "entry_type b"; cases "entry_type c") (auto simp: entry_le_iff)

lemma mset_insert_by: "mset (insert_by cmp x xs) = add_mset x (mset xs)"
  by (induction xs) auto

lemma mset_sort_by: "mset (sort_by cmp xs) = mset xs"
  by (induction xs) (simp_all add: sort_by_def mset_insert_by)

lemma set_insert_by: "set (insert_by cmp x xs) = insert x (set xs)"
  by (induction xs) auto

lemma sorted_insert_by:
  assumes c: "consistent (localeCompare rt)"
  shows "sorted_wrt (entry_le rt) xs \<Longrightarrow> sorted_wrt (entry_le rt) (insert_by (compareEntries rt) x xs)"
proof (induction xs)
  case Nil
  then show ?case by simp
next
  case (Cons y ys)
  show ?case
  proof (cases "compareEntries rt x y \<le> 0")
    case True
    then have xy: "entry_le rt x y" by (simp add: entry_le_def)
    with Cons.prems have "\<forall>z \<in> set ys. entry_le rt x z"
      by (auto intro: entry_le_trans [OF c])
    with True xy Cons.prems show ?thesis by simp
  next
    case False
    with entry_le_total [OF c, of x y] have yx: "entry_le rt y x" by (simp add: entry_le_def)
    from Cons have "sorted_wrt (entry_le rt) (insert_by (compareEntries rt) x ys)" by simp
    with False yx Cons.prems show ?thesis by (simp add: set_insert_by)
  qed
qed

lemma sorted_sort_by:
  "consistent (localeCompare rt) \<Longrightarrow> sorted_wrt (entry_le rt) (sort_by (compareEntries rt) xs)"
  by (induction xs) (simp_all add: sort_by_def sorted_insert_by)

lemma file_before_only_files:
  "entry_le rt a b \<Longrightarrow> entry_type a = FileT \<Longrightarrow> entry_type b = FileT"
  by (auto simp: entry_le_iff)

lemma sorted_directories_first:
  "sorted_wrt (entry_le rt) es \<Longrightarrow>
   filter (\<lambda>e. entry_type e = DirectoryT) es @ filter (\<lambda>e. entry_type e = FileT) es = es"
proof (induction es)
  case Nil
  then show ?case by simp
next
  case (Cons e es)
  then have ih: "filter (\<lambda>e. entry_type e = DirectoryT) es @ filter (\<lambda>e. entry_type e = FileT) es = es"
    by simp
  show ?case
  proof (cases "entry_type e")
    case DirectoryT
    with ih show ?thesis by simp
  next
    case FileT
    with Cons.prems have all: "\<forall>x \<in> set es. entry_type x = FileT"
      by (auto dest: file_before_only_files)
    then have "filter (\<lambda>e. entry_type e = DirectoryT) es = []"
      by (auto simp: filter_empty_conv)
    moreover from all have "filter (\<lambda>e. entry_type e = FileT) es = es"
      by (simp add: filter_id_conv)
    ultimately show ?thesis using FileT by simp
  qed
qed

lemma sorted_names_of_type:
  assumes "sorted_wrt (entry_le rt) es"
  shows "sorted_wrt (\<lambda>a b. localeCompare rt a b \<le> 0)
           (map entry_name (filter (\<lambda>e. entry_type e = t) es))"
proof -
  from assms have "sorted_wrt (entry_le rt) (filter (\<lambda>e. entry_type e = t) es)"
    by (rule sorted_wrt_filter)
  then have "sorted_wrt (\<lambda>a b. localeCompare rt (entry_name a) (entry_name b) \<le> 0)
               (filter (\<lambda>e. entry_type e = t) es)"
    by (rule sorted_wrt_mono_rel [rotated]) (auto simp: entry_le_iff)
  then show ?thesis by (simp add: sorted_wrt_map)
qed

lemma sorted_by_units:
  assumes s: "sorted_wrt (\<lambda>a b. cmp a b \<le> 0) names"
    and agree: "\<forall>a \<in> K. \<forall>b \<in> K. (cmp a b \<le> 0) = (a \<le> b)"
    and sub: "set names \<subseteq> K"
  shows "sorted names"
proof -
  have "sorted_wrt (\<le>) names"
    using s
  proof (rule sorted_wrt_mono_rel [rotated])
    fix a b
    assume "a \<in> set names" and "b \<in> set names" and "cmp a b \<le> 0"
    with agree sub show "a \<le> b" by blast
  qed
  then show ?thesis by simp
qed

lemma mset_own_entries: "mset (own_entries ch) = mset ch"
  by (simp add: own_entries_def)

lemma listDirectory_directory:
  "resolvePath v path dir = Inr (Some (NodeV (Directory n p i ch))) \<Longrightarrow>
   listDirectory rt v path dir = Inr (sort_by (compareEntries rt) (map entry_of (own_entries ch)))"
  by (simp add: listDirectory_def)

lemma listDirectory_file:
  "resolvePath v path dir = Inr (Some (NodeV (File n p c u))) \<Longrightarrow>
   listDirectory rt v path dir = Inl (NotADirectory path)"
  by (simp add: listDirectory_def)

lemma names_of_listing:
  "set (map entry_name (filter P (sort_by cmp (map entry_of (own_entries ch))))) \<subseteq> fst ` set ch"
proof -
  have "set (sort_by cmp (map entry_of (own_entries ch))) = entry_of ` set ch"
    by (metis mset_sort_by mset_own_entries mset_map set_mset_mset set_map)
  then show ?thesis by (force simp: entry_of_def)
qed

text \<open>
  Claim C3 (listing order and type guard), as the code has it.  The claim has the names
  in case-sensitive lexicographic order; the code orders them with \<^verbatim>\<open>localeCompare\<close>, the
  collation of the locale.  For every runtime and every path that resolves to a directory,
  \<^verbatim>\<open>listDirectory\<close> returns the entries of its children, each once, with all directories
  before all files and each of the two groups in the order of \<^verbatim>\<open>localeCompare\<close>; the
  groups are in the lexicographic order of the code units of the names whenever the
  collation agrees with that order on the names of the directory.  For every path that
  resolves to a file it throws the error that the path is not a directory.
\<close>

theorem listDirectory_sorted:
  "(consistent (localeCompare rt) \<longrightarrow>
      resolvePath v path dir = Inr (Some (NodeV (Directory n p i ch))) \<longrightarrow>
      (\<exists>es. listDirectory rt v path dir = Inr es
         \<and> mset es = mset (map entry_of ch)
         \<and> es = filter (\<lambda>e. entry_type e = DirectoryT) es @ filter (\<lambda>e. entry_type e = FileT) es
         \<and> sorted_wrt (\<lambda>a b. localeCompare rt a b \<le> 0)
             (map entry_name (filter (\<lambda>e. entry_type e = DirectoryT) es))
         \<and> sorted_wrt (\<lambda>a b. localeCompare rt a b \<le> 0)
             (map entry_name (filter (\<lambda>e. entry_type e = FileT) es))
         \<and> ((\<forall>a \<in> fst ` set ch. \<forall>b \<in> fst ` set ch. (localeCompare rt a b \<le> 0) = (a \<le> b)) \<longrightarrow>
              sorted (map entry_name (filter (\<lambda>e. entry_type e = DirectoryT) es))
              \<and> sorted (map entry_name (filter (\<lambda>e. entry_type e = FileT) es)))))
   \<and> (resolvePath v path dir = Inr (Some (NodeV (File n p c u))) \<longrightarrow>
        listDirectory rt v path dir = Inl (NotADirectory path))"
proof (rule conjI)
  show "resolvePath v path dir = Inr (Some (NodeV (File n p c u))) \<longrightarrow>
        listDirectory rt v path dir = Inl (NotADirectory path)"
    by (simp add: listDirectory_file)
next
  let ?dirs = "\<lambda>e. entry_type e = DirectoryT"
  let ?files = "\<lambda>e. entry_type e = FileT"
  let ?coll = "\<lambda>a b. localeCompare rt a b \<le> 0"
  let ?agree = "\<forall>a \<in> fst ` set ch. \<forall>b \<in> fst ` set ch. (localeCompare rt a b \<le> 0) = (a \<le> b)"
  show "consistent (localeCompare rt) \<longrightarrow>
      resolvePath v path dir = Inr (Some (NodeV (Directory n p i ch))) \<longrightarrow>
      (\<exists>es. listDirectory rt v path dir = Inr es
         \<and> mset es = mset (map entry_of ch)
         \<and> es = filter ?dirs es @ filter ?files es
         \<and> sorted_wrt ?coll (map entry_name (filter ?dirs es))
         \<and> sorted_wrt ?coll (map entry_name (filter ?files es))
         \<and> (?agree \<longrightarrow>
              sorted (map entry_name (filter ?dirs es))
              \<and> sorted (map entry_name (filter ?files es))))"
  proof (intro impI)
    assume c: "consistent (localeCompare rt)"
      and d: "resolvePath v path dir = Inr (Some (NodeV (Directory n p i ch)))"
    let ?es = "sort_by (compareEntries rt) (map entry_of (own_entries ch))"
    have s: "sorted_wrt (entry_le rt) ?es"
      using c by (rule sorted_sort_by)
    have l: "listDirectory rt v path dir = Inr ?es"
      using d by (rule listDirectory_directory)
    have m: "mset ?es = mset (map entry_of ch)"
      by (simp add: mset_sort_by mset_own_entries)
    have f: "?es = filter ?dirs ?es @ filter ?files ?es"
      using s by (simp add: sorted_directories_first)
    have sd: "sorted_wrt ?coll (map entry_name (filter ?dirs ?es))"
      using s by (rule sorted_names_of_type)
    have sf: "sorted_wrt ?coll (map entry_name (filter ?files ?es))"
      using s by (rule sorted_names_of_type)
    have u: "?agree \<longrightarrow>
              sorted (map entry_name (filter ?dirs ?es))
              \<and> sorted (map entry_name (filter ?files ?es))"
    proof (intro impI conjI)
      assume a: ?agree
      show "sorted (map entry_name (filter ?dirs ?es))"
        using sd a names_of_listing by (rule sorted_by_units)
      show "sorted (map entry_name (filter ?files ?es))"
        using sf a names_of_listing by (rule sorted_by_units)
    qed
    show "\<exists>es. listDirectory rt v path dir = Inr es
         \<and> mset es = mset (map entry_of ch)
         \<and> es = filter ?dirs es @ filter ?files es
         \<and> sorted_wrt ?coll (map entry_name (filter ?dirs es))
         \<and> sorted_wrt ?coll (map entry_name (filter ?files es))
         \<and> (?agree \<longrightarrow>
              sorted (map entry_name (filter ?dirs es))
              \<and> sorted (map entry_name (filter ?files es)))"
      by (intro exI [of _ ?es] conjI l m f sd sf u)
  qed
qed

lemma example_listing [simplified]:
  "listDirectory example_runtime (example_vfs i) (js ''alpha-beta'') (js ''/projects'')
   = Inr [\<lparr>entry_name = js ''attachments'', entry_type = DirectoryT,
            entry_path = js ''/projects/alpha-beta/attachments''\<rparr>,
          \<lparr>entry_name = js ''architecture'', entry_type = FileT,
            entry_path = js ''/projects/alpha-beta/architecture''\<rparr>,
          \<lparr>entry_name = js ''decisions.log'', entry_type = FileT,
            entry_path = js ''/projects/alpha-beta/decisions.log''\<rparr>,
          \<lparr>entry_name = js ''impact'', entry_type = FileT,
            entry_path = js ''/projects/alpha-beta/impact''\<rparr>,
          \<lparr>entry_name = js ''overview'', entry_type = FileT,
            entry_path = js ''/projects/alpha-beta/overview''\<rparr>]"
  by (simp add: listDirectory_def example_resolve_project example_project_children_def
      own_entries_def is_array_index_def isDigit_def sort_by_def entry_of_def
      buildAttachmentsDirectory_def compareEntries_def example_runtime_def compareUnits_def)

lemma example_listing_names:
  assumes es: "listDirectory example_runtime (example_vfs i) (js ''alpha-beta'') (js ''/projects'') = Inr es"
  shows "map entry_name es
      = [js ''attachments'', js ''architecture'', js ''decisions.log'', js ''impact'', js ''overview'']"
  using es by (auto simp: example_listing)

theorem listDirectory_sorted_witness:
  "consistent (localeCompare example_runtime)
   \<and> resolvePath (example_vfs 7) (js ''alpha-beta'') (js ''/projects'')
     = Inr (Some (NodeV (Directory (js ''alpha-beta'') (js ''/projects/alpha-beta'') (Some 7)
          (example_project_children 7))))
   \<and> (\<forall>a b. (localeCompare example_runtime a b \<le> 0) = (a \<le> b))
   \<and> (\<exists>es. listDirectory example_runtime (example_vfs 7) (js ''alpha-beta'') (js ''/projects'') = Inr es
         \<and> map entry_name es
             = [js ''attachments'', js ''architecture'', js ''decisions.log'', js ''impact'', js ''overview'']
         \<and> mset es = mset (map entry_of (example_project_children 7))
         \<and> sorted (map entry_name (filter (\<lambda>e. entry_type e = FileT) es)))
   \<and> resolvePath (example_vfs 7) (js ''/base/about'') (js ''/projects'')
     = Inr (Some (NodeV (File (js ''about'') (js ''/base/about'') getAboutContent None)))
   \<and> listDirectory example_runtime (example_vfs 7) (js ''/base/about'') (js ''/projects'')
     = Inl (NotADirectory (js ''/base/about''))"
proof (intro conjI)
  show c: "consistent (localeCompare example_runtime)"
    by (simp add: example_runtime_def consistent_compareUnits)
  show d: "resolvePath (example_vfs 7) (js ''alpha-beta'') (js ''/projects'')
     = Inr (Some (NodeV (Directory (js ''alpha-beta'') (js ''/projects/alpha-beta'') (Some 7)
          (example_project_children 7))))"
    by (simp add: example_resolve_project)
  show a: "\<forall>a b. (localeCompare example_runtime a b \<le> 0) = (a \<le> b)"
    by (auto simp: example_runtime_def compareUnits_def)
  show f: "resolvePath (example_vfs 7) (js ''/base/about'') (js ''/projects'')
     = Inr (Some (NodeV (File (js ''about'') (js ''/base/about'') getAboutContent None)))"
    by (simp add: example_resolve_about)
  note sorted_dir = listDirectory_sorted [THEN conjunct1, THEN mp, THEN mp, OF c d]
  note guarded = listDirectory_sorted [THEN conjunct2, THEN mp, OF f]
  from sorted_dir obtain es
    where es: "listDirectory example_runtime (example_vfs 7) (js ''alpha-beta'') (js ''/projects'') = Inr es"
      and m: "mset es = mset (map entry_of (example_project_children 7))"
      and u: "(\<forall>a \<in> fst ` set (example_project_children 7).
                \<forall>b \<in> fst ` set (example_project_children 7).
                  (localeCompare example_runtime a b \<le> 0) = (a \<le> b)) \<longrightarrow>
              sorted (map entry_name (filter (\<lambda>e. entry_type e = DirectoryT) es))
              \<and> sorted (map entry_name (filter (\<lambda>e. entry_type e = FileT) es))"
    by (elim exE conjE)
  from a have "\<forall>a \<in> fst ` set (example_project_children 7).
                \<forall>b \<in> fst ` set (example_project_children 7).
                  (localeCompare example_runtime a b \<le> 0) = (a \<le> b)"
    by simp
  with u have s: "sorted (map entry_name (filter (\<lambda>e. entry_type e = FileT) es))"
    by (elim impE conjE)
  from es have names: "map entry_name es
      = [js ''attachments'', js ''architecture'', js ''decisions.log'', js ''impact'', js ''overview'']"
    by (rule example_listing_names)
  show "\<exists>es. listDirectory example_runtime (example_vfs 7) (js ''alpha-beta'') (js ''/projects'') = Inr es
         \<and> map entry_name es
             = [js ''attachments'', js ''architecture'', js ''decisions.log'', js ''impact'', js ''overview'']
         \<and> mset es = mset (map entry_of (example_project_children 7))
         \<and> sorted (map entry_name (filter (\<lambda>e. entry_type e = FileT) es))"
    by (intro exI [of _ es] conjI es names m s)
  show "listDirectory example_runtime (example_vfs 7) (js ''/base/about'') (js ''/projects'')
     = Inl (NotADirectory (js ''/base/about''))"
    by (rule guarded)
qed

text \<open>
  The claim as it is written fails in a runtime whose locale does not order the names as
  their code units do.  In Czech and in Slovak \<^verbatim>\<open>ch\<close> is a letter of its own that comes
  after \<^verbatim>\<open>h\<close>, so \<^verbatim>\<open>'chat'.localeCompare('data')\<close> is positive there.  The comparison
  \<^verbatim>\<open>compare_ch\<close> has this one tailoring and is the order of the code units otherwise.
  With it, the projects titled \<^verbatim>\<open>Chat\<close> and \<^verbatim>\<open>Data\<close> are listed as \<^verbatim>\<open>data\<close>, \<^verbatim>\<open>chat\<close>,
  which is not the lexicographic order of the names.
\<close>

fun ch_elements :: "jstring \<Rightarrow> nat list" where
  \<comment> \<open>the collation elements of a name: one for \<^verbatim>\<open>ch\<close>, between those of \<^verbatim>\<open>h\<close> and \<^verbatim>\<open>i\<close>\<close>
  "ch_elements [] = []"
| "ch_elements [c] = [2 * c]"
| "ch_elements (c # d # cs) =
     (if c = of_char CHR ''c'' \<and> d = of_char CHR ''h''
      then (2 * of_char CHR ''h'' + 1) # ch_elements cs
      else (2 * c) # ch_elements (d # cs))"

definition compare_ch :: "jstring \<Rightarrow> jstring \<Rightarrow> int" where
  "compare_ch a b =
     (if ch_elements a < ch_elements b then - 1 else if ch_elements a = ch_elements b then 0 else 1)"

definition czech_runtime :: runtime where
  "czech_runtime = \<lparr>toLowerCase = map lowerUnit, localeCompare = compare_ch\<rparr>"

definition plain_project :: "int \<Rightarrow> jstring \<Rightarrow> project" where
  \<comment> \<open>a project record with the fields that every record has\<close>
  "plain_project i t =
     \<lparr>project_id = i, title = t, role = js ''Engineer'', description = js ''A project.'',
      problem_statement = None, architecture_image = None, technical_highlights = None,
      design_decisions = None, impact_metrics = None, attachments = None\<rparr>"

definition czech_vfs :: vfs where
  "czech_vfs =
     initialize czech_runtime example_constants new_vfs
       (Some [plain_project 1 (js ''Chat''), plain_project 2 (js ''Data'')])"

lemma consistent_compare_ch: "consistent compare_ch"
  unfolding consistent_def compare_ch_def by auto

theorem listDirectory_locale_counterexample:
  "consistent (localeCompare czech_runtime)
   \<and> listDirectory czech_runtime czech_vfs (js ''/projects'') (js ''/'')
     = Inr [\<lparr>entry_name = js ''data'', entry_type = DirectoryT, entry_path = js ''/projects/data''\<rparr>,
            \<lparr>entry_name = js ''chat'', entry_type = DirectoryT, entry_path = js ''/projects/chat''\<rparr>]
   \<and> \<not> sorted [js ''data'', js ''chat'']"
proof (intro conjI)
  show "consistent (localeCompare czech_runtime)"
    by (simp add: czech_runtime_def consistent_compare_ch)
  have slugs: "generateSlug czech_runtime (js ''Chat'') = js ''chat''"
    "generateSlug czech_runtime (js ''Data'') = js ''data''"
    by (simp_all add: generateSlug_def czech_runtime_def lowerUnit_def emdash_def startsWith_def
        trim_def isSpace_def isSlugChar_def strip_hyphens_def)
  have tree: "root czech_vfs
      = Some (Directory [] (js ''/'') None
          [(js ''base'', buildBaseDirectory example_constants),
           (js ''projects'', Directory (js ''projects'') (js ''/projects'') None
              [(js ''chat'', projectNode czech_runtime (plain_project 1 (js ''Chat''))),
               (js ''data'', projectNode czech_runtime (plain_project 2 (js ''Data'')))]),
           (js ''meta'', buildMetaDirectory)])"
    and init: "initialized czech_vfs"
    using slugs
    by (simp_all add: czech_vfs_def initialize_def new_vfs_def buildFileTree_def
        buildProjectsDirectory_def plain_project_def)
  have nodes:
    "type_of (projectNode czech_runtime (plain_project 1 (js ''Chat''))) = DirectoryT"
    "path_of (projectNode czech_runtime (plain_project 1 (js ''Chat''))) = js ''/projects/chat''"
    "type_of (projectNode czech_runtime (plain_project 2 (js ''Data''))) = DirectoryT"
    "path_of (projectNode czech_runtime (plain_project 2 (js ''Data''))) = js ''/projects/data''"
    using slugs by (simp_all add: projectNode_def Let_def plain_project_def)
  have res: "resolvePath czech_vfs (js ''/projects'') (js ''/'')
      = Inr (Some (NodeV (Directory (js ''projects'') (js ''/projects'') None
              [(js ''chat'', projectNode czech_runtime (plain_project 1 (js ''Chat''))),
               (js ''data'', projectNode czech_runtime (plain_project 2 (js ''Data'')))])))"
    using tree init
    by (simp add: resolvePath_def resolveAbsolutePath_def normalizePath_def startsWith_def
        segments_def get_child_def)
  have cmp: "compare_ch (js ''chat'') (js ''data'') = 1"
    by (simp add: compare_ch_def)
  show "listDirectory czech_runtime czech_vfs (js ''/projects'') (js ''/'')
     = Inr [\<lparr>entry_name = js ''data'', entry_type = DirectoryT, entry_path = js ''/projects/data''\<rparr>,
            \<lparr>entry_name = js ''chat'', entry_type = DirectoryT, entry_path = js ''/projects/chat''\<rparr>]"
    using nodes cmp
    by (simp add: listDirectory_def res [simplified] own_entries_def is_array_index_def isDigit_def
        sort_by_def entry_of_def compareEntries_def czech_runtime_def)
  show "\<not> sorted [js ''data'', js ''chat'']"
    by simp
qed

section \<open>Properties of the tree builder\<close>

fun children_of :: "node \<Rightarrow> (jstring \<times> node) list" where
  \<comment> \<open>\<^verbatim>\<open>node.children\<close>\<close>
  "children_of (Directory n p i ch) = ch"
| "children_of (File n p c u) = []"

definition attachment_children :: "runtime \<Rightarrow> jstring \<Rightarrow> attachment list \<Rightarrow> (jstring \<times> node) list" where
  \<comment> \<open>the children of the attachments directory after the loop over \<^verbatim>\<open>atts\<close>\<close>
  "attachment_children rt slug atts = foldl (add_attachment rt slug) [] (enumerate_from0 atts)"

lemma unique_name_free: "\<not> has_child ch (unique_name ch f e name c)"
proof (induction ch f e name c rule: unique_name.induct)
  case (1 ch f e name c)
  then show ?case by (subst unique_name.simps) simp
qed

lemma unique_name_keep: "\<not> has_child ch name \<Longrightarrow> unique_name ch f e name c = name"
  by (subst unique_name.simps) simp

lemma unique_name_numbered:
  "has_child ch name \<Longrightarrow>
   \<exists>k\<ge>c. unique_name ch f e name c = numbered f e k
     \<and> \<not> has_child ch (numbered f e k)
     \<and> (\<forall>j. c \<le> j \<and> j < k \<longrightarrow> has_child ch (numbered f e j))"
proof (induction ch f e name c rule: unique_name.induct)
  case (1 ch f e name c)
  from "1.prems" have step: "unique_name ch f e name c
      = unique_name ch f e (numbered f e c) (c + 1)"
    by (subst unique_name.simps) simp
  show ?case
  proof (cases "has_child ch (numbered f e c)")
    case False
    then have "unique_name ch f e (numbered f e c) (c + 1) = numbered f e c"
      by (rule unique_name_keep)
    with step False show ?thesis by (intro exI [of _ c]) auto
  next
    case True
    with "1.IH" [OF "1.prems"] obtain k where k: "c + 1 \<le> k"
      and r: "unique_name ch f e (numbered f e c) (c + 1) = numbered f e k"
      and free: "\<not> has_child ch (numbered f e k)"
      and taken: "\<forall>j. c + 1 \<le> j \<and> j < k \<longrightarrow> has_child ch (numbered f e j)"
      by blast
    have "\<forall>j. c \<le> j \<and> j < k \<longrightarrow> has_child ch (numbered f e j)"
    proof (intro allI impI)
      fix j assume j: "c \<le> j \<and> j < k"
      show "has_child ch (numbered f e j)"
      proof (cases "j = c")
        case True
        with \<open>has_child ch (numbered f e c)\<close> show ?thesis by simp
      next
        case False
        with j have "c + 1 \<le> j \<and> j < k" by simp
        with taken show ?thesis by blast
      qed
    qed
    with k r free step show ?thesis by (intro exI [of _ k]) simp
  qed
qed

lemma set_hyphenate: "set (hyphenate run s) \<subseteq> {c. isSlugChar c} \<union> {(of_char CHR ''-'')}"
  by (induction run s rule: hyphenate.induct) auto

lemma set_strip_hyphens: "set (strip_hyphens s) \<subseteq> set s"
  by (auto simp: strip_hyphens_def dest!: set_dropWhileD)

lemma slug_no_dot: "of_char CHR ''.'' \<notin> set (generateSlug rt t)"
proof
  assume "of_char CHR ''.'' \<in> set (generateSlug rt t)"
  with set_strip_hyphens
  have "of_char CHR ''.'' \<in> set (hyphenate False (trim (before_first emdash (toLowerCase rt t))))"
    unfolding generateSlug_def by blast
  then have "of_char CHR ''.'' \<in> {c. isSlugChar c} \<union> {of_char CHR ''-''}"
    by (rule subsetD [OF set_hyphenate])
  then show False by (simp add: isSlugChar_def)
qed

lemma startsWith_Cons: "startsWith (x # p) (y # s) \<longleftrightarrow> x = y \<and> startsWith p s"
  by (auto simp: startsWith_def)

lemma startsWith_self: "startsWith p (p @ s)"
  by (simp add: startsWith_def)

lemma replace_first_ext:
  "of_char CHR ''.'' \<notin> set base \<Longrightarrow>
   replace_first (of_char CHR ''.'' # ext) [] (base @ of_char CHR ''.'' # ext) = base"
proof (induction base)
  case Nil
  have "startsWith (of_char CHR ''.'' # ext) ((of_char CHR ''.'' # ext) @ [])"
    by (rule startsWith_self)
  then show ?case by simp
next
  case (Cons a base)
  then have ns: "\<not> startsWith (of_char CHR ''.'' # ext) (a # base @ of_char CHR ''.'' # ext)"
    by (auto simp: startsWith_Cons)
  from Cons.prems have "of_char CHR ''.'' \<notin> set base"
    by simp
  then have "replace_first (of_char CHR ''.'' # ext) [] (base @ of_char CHR ''.'' # ext) = base"
    by (rule Cons.IH)
  with ns show ?case by simp
qed

lemma numbered_base:
  "of_char CHR ''.'' \<notin> set base \<Longrightarrow>
   numbered (base @ js ''.'' @ ext) ext k = base @ js ''-'' @ show_nat k @ js ''.'' @ ext"
  by (simp add: numbered_def replace_first_ext [simplified])

lemma has_child_dotted:
  "of_char CHR ''.'' \<in> set name \<Longrightarrow> has_child ch name \<longleftrightarrow> name \<in> fst ` set ch"
proof -
  assume dot: "of_char CHR ''.'' \<in> set name"
  have "\<forall>k \<in> set object_prototype_keys. (of_char CHR ''.'') \<notin> set k"
    by (simp add: object_prototype_keys_def)
  with dot have "name \<notin> set object_prototype_keys" by blast
  then have "has_child ch name \<longleftrightarrow> map_of ch name \<noteq> None"
    by (simp add: has_child_def get_child_def split: option.splits)
  then show ?thesis by (simp add: map_of_eq_None_iff)
qed


lemma attachment_name_shape:
  fixes ch :: "(jstring \<times> node) list"
  defines "K \<equiv> fst ` set ch"
  shows "(attachment_base rt i a @ js ''.'' @ attachment_extension rt a \<notin> K
          \<and> attachment_name rt ch i a = attachment_base rt i a @ js ''.'' @ attachment_extension rt a)
       \<or> (attachment_base rt i a @ js ''.'' @ attachment_extension rt a \<in> K
          \<and> (\<exists>k\<ge>1. attachment_name rt ch i a
                  = attachment_base rt i a @ js ''-'' @ show_nat k @ js ''.'' @ attachment_extension rt a
                \<and> attachment_name rt ch i a \<notin> K
                \<and> (\<forall>j. 1 \<le> j \<and> j < k \<longrightarrow>
                     attachment_base rt i a @ js ''-'' @ show_nat j @ js ''.'' @ attachment_extension rt a \<in> K)))"
proof -
  let ?base = "attachment_base rt i a" and ?ext = "attachment_extension rt a"
  let ?f = "?base @ js ''.'' @ ?ext"
  have nodot: "of_char CHR ''.'' \<notin> set ?base"
    by (simp add: attachment_base_def slug_no_dot [simplified])
  have num: "numbered ?f ?ext k = ?base @ js ''-'' @ show_nat k @ js ''.'' @ ?ext" for k
    using nodot by (rule numbered_base)
  have dotted: "has_child ch (?base @ js ''-'' @ show_nat k @ js ''.'' @ ?ext)
      \<longleftrightarrow> ?base @ js ''-'' @ show_nat k @ js ''.'' @ ?ext \<in> K" for k
    unfolding K_def by (rule has_child_dotted) simp
  have f: "has_child ch ?f \<longleftrightarrow> ?f \<in> K"
    unfolding K_def by (rule has_child_dotted) simp
  have name: "attachment_name rt ch i a = unique_name ch ?f ?ext ?f 1"
    by (simp add: attachment_name_def Let_def)
  show ?thesis
  proof (cases "?f \<in> K")
    case False
    with f have "unique_name ch ?f ?ext ?f 1 = ?f"
      by (intro unique_name_keep) simp
    with False name show ?thesis by simp
  next
    case True
    with f have "has_child ch ?f" by simp
    from unique_name_numbered [OF this, of 1 ?f ?ext] obtain k where "1 \<le> k"
      and "unique_name ch ?f ?ext ?f 1 = numbered ?f ?ext k"
      and "\<not> has_child ch (numbered ?f ?ext k)"
      and "\<forall>j. 1 \<le> j \<and> j < k \<longrightarrow> has_child ch (numbered ?f ?ext j)"
      by blast
    then have "1 \<le> k"
      and "attachment_name rt ch i a = ?base @ js ''-'' @ show_nat k @ js ''.'' @ ?ext"
      and "attachment_name rt ch i a \<notin> K"
      and "\<forall>j. 1 \<le> j \<and> j < k \<longrightarrow> ?base @ js ''-'' @ show_nat j @ js ''.'' @ ?ext \<in> K"
      by (simp_all only: name num dotted simp_thms)
    with True show ?thesis by blast
  qed
qed

lemma attachment_name_fresh: "attachment_name rt ch i a \<notin> fst ` set ch"
proof -
  from attachment_name_shape [of rt i a ch]
  consider "attachment_base rt i a @ js ''.'' @ attachment_extension rt a \<notin> fst ` set ch"
      "attachment_name rt ch i a = attachment_base rt i a @ js ''.'' @ attachment_extension rt a"
    | "attachment_name rt ch i a \<notin> fst ` set ch"
    by blast
  then show ?thesis by cases simp_all
qed

lemma set_child_fresh: "k \<notin> fst ` set ch \<Longrightarrow> map fst (set_child ch k v) = map fst ch @ [k]"
  by (induction ch) auto

lemma enumerate_from0_snoc: "enumerate_from0 (xs @ [x]) = enumerate_from0 xs @ [(length xs, x)]"
  by (simp add: enumerate_from0_def)

lemma attachment_children_snoc:
  "attachment_children rt slug (atts @ [a])
   = add_attachment rt slug (attachment_children rt slug atts) (length atts, a)"
  by (simp add: attachment_children_def enumerate_from0_snoc)

lemma attachment_names_snoc:
  "map fst (attachment_children rt slug (atts @ [a]))
   = map fst (attachment_children rt slug atts)
     @ [attachment_name rt (attachment_children rt slug atts) (length atts) a]"
  by (simp add: attachment_children_snoc add_attachment_def Let_def set_child_fresh
      attachment_name_fresh)

lemma attachment_children_Nil [simp]: "attachment_children rt slug [] = []"
  by (simp add: attachment_children_def enumerate_from0_def)

lemma length_attachment_names: "length (attachment_children rt slug atts) = length atts"
proof (induction atts rule: rev_induct)
  case Nil
  show ?case by (simp add: attachment_children_def enumerate_from0_def)
next
  case (snoc a atts)
  have "length (map fst (attachment_children rt slug (atts @ [a])))
        = Suc (length (map fst (attachment_children rt slug atts)))"
    by (simp only: attachment_names_snoc length_append list.size)
  with snoc show ?case by simp
qed

lemma distinct_attachment_names: "distinct (map fst (attachment_children rt slug atts))"
proof (induction atts rule: rev_induct)
  case Nil
  show ?case by (simp add: attachment_children_def enumerate_from0_def)
next
  case (snoc a atts)
  have "attachment_name rt (attachment_children rt slug atts) (length atts) a
        \<notin> set (map fst (attachment_children rt slug atts))"
    using attachment_name_fresh [of rt "attachment_children rt slug atts" "length atts" a] by simp
  with snoc show ?case by (simp only: attachment_names_snoc distinct_append) simp
qed

lemma take_attachment_names:
  "i \<le> length atts \<Longrightarrow>
   take i (map fst (attachment_children rt slug atts))
   = map fst (attachment_children rt slug (take i atts))"
proof (induction atts rule: rev_induct)
  case Nil
  then show ?case by simp
next
  case (snoc a atts)
  show ?case
  proof (cases "i \<le> length atts")
    case True
    then have "take i (map fst (attachment_children rt slug (atts @ [a])))
        = take i (map fst (attachment_children rt slug atts))"
      by (simp only: attachment_names_snoc) (simp add: length_attachment_names)
    with True snoc.IH show ?thesis by simp
  next
    case False
    with snoc.prems have "i = length (atts @ [a])" by simp
    then show ?thesis by (simp add: length_attachment_names)
  qed
qed

lemma nth_attachment_names:
  "i < length atts \<Longrightarrow>
   map fst (attachment_children rt slug atts) ! i
   = attachment_name rt (attachment_children rt slug (take i atts)) i (atts ! i)"
proof (induction atts rule: rev_induct)
  case Nil
  then show ?case by simp
next
  case (snoc a atts)
  show ?case
  proof (cases "i < length atts")
    case True
    then have "map fst (attachment_children rt slug (atts @ [a])) ! i
        = map fst (attachment_children rt slug atts) ! i"
      by (simp only: attachment_names_snoc) (simp add: nth_append length_attachment_names)
    with True snoc.IH show ?thesis by (simp add: nth_append)
  next
    case False
    with snoc.prems have i: "i = length atts" by simp
    then have "map fst (attachment_children rt slug (atts @ [a])) ! i
        = attachment_name rt (attachment_children rt slug atts) (length atts) a"
      by (simp only: attachment_names_snoc) (simp add: nth_append length_attachment_names)
    with i show ?thesis by simp
  qed
qed


lemma children_of_attachments:
  "children_of (buildAttachmentsDirectory rt atts slug) = attachment_children rt slug atts"
  by (simp add: buildAttachmentsDirectory_def attachment_children_def)

text \<open>
  Claim C8 (attachment naming uniqueness), as the code has it.  The builder tests the
  extension on the lower-cased URL, so a URL that ends in \<^verbatim>\<open>.PDF\<close> gets \<^verbatim>\<open>pdf\<close> as well.
  For every list of attachments: the attachments directory has one file for each
  attachment, and the names differ pairwise.  The name of the attachment at index \<open>i\<close> is
  \<^verbatim>\<open>base.ext\<close>, where \<^verbatim>\<open>base\<close> is the slug of its caption, or of \<^verbatim>\<open>attachment-\<close> and the
  ordinal \<open>i + 1\<close> when it has no caption, and \<^verbatim>\<open>ext\<close> is \<^verbatim>\<open>pdf\<close> when the lower-cased URL
  ends in \<^verbatim>\<open>.pdf\<close> and \<^verbatim>\<open>jpg\<close> otherwise, if none of the attachments before it has that
  name; else it is \<^verbatim>\<open>base-k.ext\<close> for the first \<open>k\<close> from 1 on for which none of the attachments
  before it has this name.  Two attachments with the caption \<^verbatim>\<open>Shot\<close> become \<^verbatim>\<open>shot.jpg\<close>
  and \<^verbatim>\<open>shot-1.jpg\<close>.
\<close>

theorem attachment_names_unique:
  "length (children_of (buildAttachmentsDirectory rt atts slug)) = length atts
   \<and> distinct (map fst (children_of (buildAttachmentsDirectory rt atts slug)))
   \<and> (\<forall>i<length atts.
        let names = map fst (children_of (buildAttachmentsDirectory rt atts slug));
            siblings = set (take i names);
            base = generateSlug rt (if truthy (caption (atts ! i)) then the (caption (atts ! i))
                                 else js ''attachment-'' @ show_nat (i + 1));
            ext = (if endsWith (js ''.pdf'') (toLowerCase rt (url (atts ! i))) then js ''pdf'' else js ''jpg'')
        in (base @ js ''.'' @ ext \<notin> siblings \<and> names ! i = base @ js ''.'' @ ext)
         \<or> (base @ js ''.'' @ ext \<in> siblings
            \<and> (\<exists>k\<ge>1. names ! i = base @ js ''-'' @ show_nat k @ js ''.'' @ ext
                 \<and> names ! i \<notin> siblings
                 \<and> (\<forall>j. 1 \<le> j \<and> j < k \<longrightarrow>
                      base @ js ''-'' @ show_nat j @ js ''.'' @ ext \<in> siblings))))"
proof (intro conjI allI impI)
  show "length (children_of (buildAttachmentsDirectory rt atts slug)) = length atts"
    by (simp add: children_of_attachments length_attachment_names)
  show "distinct (map fst (children_of (buildAttachmentsDirectory rt atts slug)))"
    by (simp add: children_of_attachments distinct_attachment_names)
next
  fix i assume i: "i < length atts"
  let ?ch = "attachment_children rt slug (take i atts)"
  let ?names = "map fst (children_of (buildAttachmentsDirectory rt atts slug))"
  have nth: "?names ! i = attachment_name rt ?ch i (atts ! i)"
    using i by (simp only: children_of_attachments nth_attachment_names)
  have "take i ?names = map fst ?ch"
    using i by (simp only: children_of_attachments) (simp add: take_attachment_names)
  then have sib: "set (take i ?names) = fst ` set ?ch"
    by simp
  from attachment_name_shape [of rt i "atts ! i" ?ch]
  show "let names = ?names;
            siblings = set (take i names);
            base = generateSlug rt (if truthy (caption (atts ! i)) then the (caption (atts ! i))
                                 else js ''attachment-'' @ show_nat (i + 1));
            ext = (if endsWith (js ''.pdf'') (toLowerCase rt (url (atts ! i))) then js ''pdf'' else js ''jpg'')
        in (base @ js ''.'' @ ext \<notin> siblings \<and> names ! i = base @ js ''.'' @ ext)
         \<or> (base @ js ''.'' @ ext \<in> siblings
            \<and> (\<exists>k\<ge>1. names ! i = base @ js ''-'' @ show_nat k @ js ''.'' @ ext
                 \<and> names ! i \<notin> siblings
                 \<and> (\<forall>j. 1 \<le> j \<and> j < k \<longrightarrow>
                      base @ js ''-'' @ show_nat j @ js ''.'' @ ext \<in> siblings)))"
    unfolding Let_def nth sib attachment_base_def attachment_extension_def .
qed


lemma show_nat_1: "show_nat (Suc 0) = js ''1''"
  by (subst show_nat.simps) simp

lemma example_attachment_names [simplified]:
  "map fst (children_of (buildAttachmentsDirectory example_runtime example_attachments (js ''alpha-beta'')))
   = [js ''shot.jpg'', js ''shot-1.jpg'']"
  by (simp add: buildAttachmentsDirectory_def example_attachments_def enumerate_from0_def
      add_attachment_def attachment_name_def attachment_extension_def attachment_base_def
      truthy_def generateSlug_def example_runtime_def lowerUnit_def emdash_def startsWith_def
      trim_def isSpace_def isSlugChar_def strip_hyphens_def endsWith_def Let_def
      unique_name.simps has_child_def get_child_def object_prototype_keys_def numbered_def
      show_nat_1 upt_rec)

theorem attachment_names_unique_witness:
  "(1::nat) < length example_attachments
   \<and> map fst (children_of (buildAttachmentsDirectory example_runtime example_attachments (js ''alpha-beta'')))
       = [js ''shot.jpg'', js ''shot-1.jpg'']
   \<and> length (children_of (buildAttachmentsDirectory example_runtime example_attachments (js ''alpha-beta'')))
       = length example_attachments
   \<and> distinct (map fst (children_of (buildAttachmentsDirectory example_runtime example_attachments (js ''alpha-beta''))))
   \<and> generateSlug example_runtime (js ''Shot'') @ js ''.'' @ js ''jpg''
       \<in> set (take 1 (map fst (children_of (buildAttachmentsDirectory example_runtime example_attachments (js ''alpha-beta'')))))
   \<and> map fst (children_of (buildAttachmentsDirectory example_runtime example_attachments (js ''alpha-beta''))) ! 1
       = generateSlug example_runtime (js ''Shot'') @ js ''-'' @ show_nat 1 @ js ''.'' @ js ''jpg''"
proof -
  let ?names = "map fst (children_of (buildAttachmentsDirectory example_runtime example_attachments (js ''alpha-beta'')))"
  have i: "(1::nat) < length example_attachments"
    by (simp add: example_attachments_def)
  have slug [simplified]: "generateSlug example_runtime (js ''Shot'') = js ''shot''"
    by (simp add: generateSlug_def example_runtime_def lowerUnit_def emdash_def startsWith_def
        trim_def isSpace_def isSlugChar_def strip_hyphens_def)
  note names = example_attachment_names
  from attachment_names_unique [of example_runtime example_attachments "js ''alpha-beta''"]
  have "length (children_of (buildAttachmentsDirectory example_runtime example_attachments (js ''alpha-beta'')))
       = length example_attachments"
    and "distinct ?names"
    by blast+
  moreover have "generateSlug example_runtime (js ''Shot'') @ js ''.'' @ js ''jpg'' \<in> set (take 1 ?names)"
    by (simp add: names slug)
  moreover have "?names ! 1 = generateSlug example_runtime (js ''Shot'') @ js ''-'' @ show_nat 1 @ js ''.'' @ js ''jpg''"
    by (simp add: names slug show_nat_1)
  ultimately show ?thesis using i names by simp
qed

text \<open>
  The claim as it is written gives \<^verbatim>\<open>jpg\<close> to every URL that does not end in \<^verbatim>\<open>.pdf\<close>;
  the builder gives \<^verbatim>\<open>pdf\<close> to a URL that ends in \<^verbatim>\<open>.PDF\<close>.
\<close>

theorem attachment_pdf_case_counterexample:
  "\<not> endsWith (js ''.pdf'') (js ''/docs/CV.PDF'')
   \<and> map fst (children_of (buildAttachmentsDirectory example_runtime
         [\<lparr>url = js ''/docs/CV.PDF'', caption = Some (js ''Resume'')\<rparr>] (js ''alpha-beta'')))
       = [js ''resume.pdf'']
   \<and> map fst (children_of (buildAttachmentsDirectory example_runtime
         [\<lparr>url = js ''/docs/CV.PDF'', caption = Some (js ''Resume'')\<rparr>] (js ''alpha-beta'')))
       \<noteq> [js ''resume.jpg'']"
  by (simp add: buildAttachmentsDirectory_def enumerate_from0_def
      add_attachment_def attachment_name_def attachment_extension_def attachment_base_def
      truthy_def generateSlug_def example_runtime_def lowerUnit_def emdash_def startsWith_def
      trim_def isSpace_def isSlugChar_def strip_hyphens_def endsWith_def Let_def
      unique_name.simps has_child_def get_child_def object_prototype_keys_def)

subsection \<open>Search\<close>






















section \<open>Properties of the handlers\<close>

subsection \<open>The depth of the tree command\<close>

lemma getTree_not_InvalidDepth: "getTree v path depth dir \<noteq> Inl InvalidDepth"
  by (auto simp: getTree_def resolvePath_def Let_def
      split: sum.splits option.splits jsval.splits if_splits)

lemma cmdTree_InvalidDepth_iff:
  "fst (cmdTree p args) = Inl InvalidDepth
   \<longleftrightarrow> (case tree_depth args of None \<Rightarrow> True | Some depth \<Rightarrow> depth < 1)"
  using getTree_not_InvalidDepth [of "vfs p" "first_or args 0 (js ''.'')" _ "cwd p"]
  by (auto simp: cmdTree_def Let_def split: option.splits sum.splits)

lemma show_nat_digits: "show_nat n \<noteq> [] \<and> list_all isDigit (show_nat n)"
proof (induction n rule: show_nat.induct)
  case (1 n)
  have digit [simplified]: "isDigit (js ''0123456789'' ! d)" if "d < 10" for d
  proof -
    from that have "d \<in> {0, 1, 2, 3, 4, 5, 6, 7, 8, 9}" by auto
    then show ?thesis by (auto simp: isDigit_def)
  qed
  show ?case
  proof (cases "n < 10")
    case True
    then show ?thesis by (subst (1 2) show_nat.simps) (simp add: digit)
  next
    case False
    with 1 have "list_all isDigit (show_nat (n div 10))" by simp
    with False show ?thesis by (subst (1 2) show_nat.simps) (simp add: digit)
  qed
qed

lemma isDigit_plain: "isDigit c \<Longrightarrow> \<not> isSpace c \<and> c \<noteq> of_char CHR ''-'' \<and> c \<noteq> of_char CHR ''+''"
  by (auto simp: isDigit_def isSpace_def)

lemma parseInt_show_nat: "parseInt (show_nat n) = Some (int n)"
proof -
  from show_nat_digits [of n] obtain d ds where s: "show_nat n = d # ds"
    and all: "list_all isDigit (d # ds)"
    by (cases "show_nat n") auto
  from all have d: "\<not> isSpace d" "d \<noteq> of_char CHR ''-''" "d \<noteq> of_char CHR ''+''"
    using isDigit_plain [of d] by simp_all
  from all have "takeWhile isDigit (d # ds) = d # ds"
    by (simp add: list_all_iff takeWhile_eq_all_conv)
  with d have "parseInt (d # ds) = Some (int (digits_value (d # ds)))"
    by (simp add: parseInt_def Let_def)
  then show ?thesis by (simp add: s [symmetric] digits_value_show_nat)
qed

lemma cmdTree_accepts_positive:
  "0 < n \<Longrightarrow> fst (cmdTree p [path, show_nat n]) \<noteq> Inl InvalidDepth"
  using show_nat_digits [of n]
  by (simp add: cmdTree_InvalidDepth_iff tree_depth_def parseInt_show_nat)

lemma parseInt_1x [simplified]: "parseInt (js ''1x'') = Some 1"
  by (simp add: parseInt_def isSpace_def isDigit_def digits_value_def digit_value_def)

lemma tree_depth_1x [simplified]: "tree_depth [js ''/'', js ''1x''] = Some 1"
  by (simp add: tree_depth_def parseInt_1x)

lemma tree_depth_1 [simplified]: "tree_depth [js ''/'', js ''1''] = Some 1"
  by (simp add: tree_depth_def parseInt_def isSpace_def isDigit_def digits_value_def
      digit_value_def)

lemma example_tree_depth_1 [simplified]:
  "getTree (example_vfs i) (js ''/'') 1 (js ''/'')
   = Inr (lines [js ''//'', connector_mid @ js ''base/'', connector_mid @ js ''projects/'',
                 connector_last @ js ''meta/''])"
  by (simp add: getTree_def resolvePath_def example_tree resolveAbsolutePath_def normalizePath_def
      startsWith_def segments_def own_entries_def is_array_index_def isDigit_def tree_line_def
      buildBaseDirectory_def buildMetaDirectory_def example_projectNode lines_def)

lemma tokens_tree_1x [simplified]: "tokens (js ''tree / 1x'') = [js ''tree'', js ''/'', js ''1x'']"
  by (simp add: tokens.simps take_token.simps Let_def quote_def isSpace_def)

text \<open>
  Claim C7 (tree depth validation) against the code.  \<^verbatim>\<open>cmdTree\<close> throws the depth error
  exactly when \<^verbatim>\<open>parseInt\<close> of the depth argument is \<^verbatim>\<open>NaN\<close> or less than 1, before
  the filesystem is consulted (\<open>cmdTree_InvalidDepth_iff\<close>), and never for a positive
  decimal number (\<open>cmdTree_accepts_positive\<close>).  But \<^verbatim>\<open>parseInt\<close> reads the digits a
  string starts with and ignores the rest: the depth \<^verbatim>\<open>1x\<close>, which is no number, is read as
  1, the handler does what it does for the depth \<^verbatim>\<open>1\<close>, and \<^verbatim>\<open>tree / 1x\<close> renders the
  tree to depth 1 with no error.
\<close>

theorem cmdTree_accepts_trailing_garbage:
  "parseInt (js ''1x'') = Some 1
   \<and> cmdTree p [js ''/'', js ''1x''] = cmdTree p [js ''/'', js ''1'']
   \<and> execute example_runtime (new_parser (example_vfs 7)) (js ''tree / 1x'')
       = (\<lparr>res_output = lines [js ''//'', connector_mid @ js ''base/'', connector_mid @ js ''projects/'',
                                connector_last @ js ''meta/''],
           res_error = False, res_navigation = None, res_exit = False\<rparr>,
          \<lparr>vfs = example_vfs 7, cwd = js ''/'', history = [js ''tree / 1x'']\<rparr>)"
proof (intro conjI)
  show "parseInt (js ''1x'') = Some 1" by (simp add: parseInt_1x)
  show "cmdTree p [js ''/'', js ''1x''] = cmdTree p [js ''/'', js ''1'']"
    by (simp add: cmdTree_def tree_depth_1x tree_depth_1 first_or_def)
  have trimmed [simplified]: "trim (js ''tree / 1x'') = js ''tree / 1x''"
    by (simp add: trim_def isSpace_def)
  show "execute example_runtime (new_parser (example_vfs 7)) (js ''tree / 1x'')
       = (\<lparr>res_output = lines [js ''//'', connector_mid @ js ''base/'', connector_mid @ js ''projects/'',
                                connector_last @ js ''meta/''],
           res_error = False, res_navigation = None, res_exit = False\<rparr>,
          \<lparr>vfs = example_vfs 7, cwd = js ''/'', history = [js ''tree / 1x'']\<rparr>)"
    by (simp add: execute_def trimmed Let_def containsShellFeatures_def shellFeatures_def
        startsWith_def parseCommand_def tokens_tree_1x strip_quotes_def quote_def aliases_def
        commands_def cmdTree_def tree_depth_1x first_or_def new_parser_def example_tree_depth_1
        out_def)
qed

subsection \<open>What the open command does with a file\<close>

lemma cmdOpen_file:
  assumes "resolvePath (vfs p) path (cwd p) = Inr (Some (NodeV (File n fp c u)))"
    and "getProjectIdFromPath (vfs p) fp = Inr projectId"
  shows "cmdOpen p [path]
     = (if truthy_id projectId
        then (Inr ((out (js ''Opening project: '' @ fp))
                \<lparr>h_navigation := Some (NavProject (the projectId))\<rparr>), p)
        else if truthy u
        then (Inr ((out (js ''Opening: '' @ fp))\<lparr>h_navigation := Some (NavUrl (the u))\<rparr>), p)
        else (Inr (out (if c \<noteq> [] then c else js ''(empty file)'')), p))"
  using assms by (simp add: cmdOpen_def Let_def)

lemma example_resolve_overview [simplified]:
  "resolvePath (example_vfs i) (js ''/projects/alpha-beta/overview'') dir
   = Inr (Some (NodeV (File (js ''overview'') (js ''/projects/alpha-beta/overview'')
        (formatProjectOverview (example_project i)) None)))"
  by (simp add: resolvePath_def example_tree resolveAbsolutePath_def normalizePath_def
      startsWith_def segments_def get_child_def example_projectNode example_project_children_def)

lemma example_resolve_project_abs [simplified]:
  "resolvePath (example_vfs i) (js ''/projects/alpha-beta'') dir
   = Inr (Some (NodeV (Directory (js ''alpha-beta'') (js ''/projects/alpha-beta'') (Some i)
        (example_project_children i))))"
  by (simp add: resolvePath_def example_tree resolveAbsolutePath_def normalizePath_def
      startsWith_def segments_def get_child_def example_projectNode)

lemma example_projectId_overview [simplified]:
  "getProjectIdFromPath (example_vfs i) (js ''/projects/alpha-beta/overview'')
   = Inr (if i = 0 then None else Some i)"
  by (simp add: getProjectIdFromPath_def example_resolve_overview truthy_id_def Let_def
      segments_def example_resolve_project_abs)

lemma overview_not_empty: "formatProjectOverview q \<noteq> []"
  by (simp add: formatProjectOverview_def nl_def)

lemma tokens_open_overview [simplified]:
  "tokens (js ''open /projects/alpha-beta/overview'') = [js ''open'', js ''/projects/alpha-beta/overview'']"
  by (simp add: tokens.simps take_token.simps Let_def quote_def isSpace_def)

lemma open_overview:
  fixes i :: int
  defines "p \<equiv> \<lparr>vfs = example_vfs i, cwd = js ''/'',
                   history = [js ''open /projects/alpha-beta/overview'']\<rparr>"
  shows "cmdOpen p [js ''/projects/alpha-beta/overview'']
      = (if i = 0 then (Inr (out (formatProjectOverview (example_project i))), p)
         else (Inr ((out (js ''Opening project: /projects/alpha-beta/overview''))
                 \<lparr>h_navigation := Some (NavProject i)\<rparr>), p))"
proof -
  have r: "resolvePath (vfs p) (js ''/projects/alpha-beta/overview'') (cwd p)
      = Inr (Some (NodeV (File (js ''overview'') (js ''/projects/alpha-beta/overview'')
          (formatProjectOverview (example_project i)) None)))"
    by (simp add: p_def example_resolve_overview)
  have g: "getProjectIdFromPath (vfs p) (js ''/projects/alpha-beta/overview'')
      = Inr (if i = 0 then None else Some i)"
    by (simp add: p_def example_projectId_overview)
  show ?thesis
  proof (cases "i = 0")
    case True
    with cmdOpen_file [OF r g] show ?thesis
      by (simp add: truthy_id_def truthy_def overview_not_empty)
  next
    case False
    with cmdOpen_file [OF r g] show ?thesis
      by (simp add: truthy_id_def)
  qed
qed

lemma execute_open_overview [simplified]:
  "execute example_runtime (new_parser (example_vfs i)) (js ''open /projects/alpha-beta/overview'')
   = (\<lparr>res_output = (if i = 0 then formatProjectOverview (example_project i)
                        else js ''Opening project: /projects/alpha-beta/overview''),
        res_error = False,
        res_navigation = (if i = 0 then None else Some (NavProject i)),
        res_exit = False\<rparr>,
      \<lparr>vfs = example_vfs i, cwd = js ''/'', history = [js ''open /projects/alpha-beta/overview'']\<rparr>)"
proof -
  have trimmed [simplified]: "trim (js ''open /projects/alpha-beta/overview'') = js ''open /projects/alpha-beta/overview''"
    by (simp add: trim_def isSpace_def)
  show ?thesis
    by (simp add: execute_def trimmed Let_def containsShellFeatures_def shellFeatures_def
        startsWith_def parseCommand_def tokens_open_overview strip_quotes_def quote_def
        aliases_def commands_def new_parser_def open_overview [simplified] out_def)
qed

lemma example_attachments_dir [simplified]:
  "buildAttachmentsDirectory example_runtime example_attachments (js ''alpha-beta'')
   = Directory (js ''attachments'') (js ''/projects/alpha-beta/attachments'') None
       [(js ''shot.jpg'', attachment_file example_runtime (js ''alpha-beta'') (js ''shot.jpg'') (example_attachments ! 0)),
        (js ''shot-1.jpg'', attachment_file example_runtime (js ''alpha-beta'') (js ''shot-1.jpg'') (example_attachments ! 1))]"
proof -
  have one [simplified]: "show_nat (Suc 0) = js ''1''"
    by (subst show_nat.simps) simp
  show ?thesis
    by (simp add: buildAttachmentsDirectory_def example_attachments_def enumerate_from0_def
        add_attachment_def attachment_name_def attachment_extension_def attachment_base_def
        truthy_def generateSlug_def example_runtime_def lowerUnit_def emdash_def startsWith_def
        trim_def isSpace_def isSlugChar_def strip_hyphens_def endsWith_def Let_def
        unique_name.simps has_child_def get_child_def object_prototype_keys_def numbered_def
        one upt_rec)
qed

definition example_shot :: node where
  \<comment> \<open>the file of the first attachment of the example\<close>
  "example_shot = attachment_file example_runtime (js ''alpha-beta'') (js ''shot.jpg'') (example_attachments ! 0)"

lemma example_shot_file:
  "\<exists>c. example_shot
     = File (js ''shot.jpg'') (js ''/projects/alpha-beta/attachments/shot.jpg'') c (Some (js ''/img/one.png''))"
  by (simp add: example_shot_def attachment_file_def example_attachments_def)

lemma example_resolve_shot [simplified]:
  "resolvePath (example_vfs i) (js ''/projects/alpha-beta/attachments/shot.jpg'') dir
   = Inr (Some (NodeV example_shot))"
  by (simp add: resolvePath_def example_tree resolveAbsolutePath_def normalizePath_def
      startsWith_def segments_def get_child_def example_projectNode example_project_children_def
      example_attachments_dir example_shot_def)

lemma example_shot_projectId [simplified]: "projectId_of (NodeV example_shot) = None"
  by (simp add: example_shot_def attachment_file_def)

lemma example_projectId_shot [simplified]:
  "getProjectIdFromPath (example_vfs i) (js ''/projects/alpha-beta/attachments/shot.jpg'')
   = Inr (if i = 0 then None else Some i)"
  by (simp add: getProjectIdFromPath_def example_resolve_shot example_shot_projectId
      truthy_id_def Let_def segments_def example_resolve_project_abs)

lemma open_shot:
  fixes i :: int
  defines "p \<equiv> \<lparr>vfs = example_vfs i, cwd = js ''/'',
                   history = [js ''open /projects/alpha-beta/attachments/shot.jpg'']\<rparr>"
  shows "cmdOpen p [js ''/projects/alpha-beta/attachments/shot.jpg'']
      = (if i = 0
         then (Inr ((out (js ''Opening: /projects/alpha-beta/attachments/shot.jpg''))
                 \<lparr>h_navigation := Some (NavUrl (js ''/img/one.png''))\<rparr>), p)
         else (Inr ((out (js ''Opening project: /projects/alpha-beta/attachments/shot.jpg''))
                 \<lparr>h_navigation := Some (NavProject i)\<rparr>), p))"
proof -
  from example_shot_file obtain c where shot: "example_shot
     = File (js ''shot.jpg'') (js ''/projects/alpha-beta/attachments/shot.jpg'') c (Some (js ''/img/one.png''))"
    by blast
  have r: "resolvePath (vfs p) (js ''/projects/alpha-beta/attachments/shot.jpg'') (cwd p)
      = Inr (Some (NodeV (File (js ''shot.jpg'') (js ''/projects/alpha-beta/attachments/shot.jpg'') c
          (Some (js ''/img/one.png'')))))"
    by (simp add: p_def example_resolve_shot shot)
  have g: "getProjectIdFromPath (vfs p) (js ''/projects/alpha-beta/attachments/shot.jpg'')
      = Inr (if i = 0 then None else Some i)"
    by (simp add: p_def example_projectId_shot)
  show ?thesis
  proof (cases "i = 0")
    case True
    with cmdOpen_file [OF r g] show ?thesis
      by (simp add: truthy_id_def truthy_def)
  next
    case False
    with cmdOpen_file [OF r g] show ?thesis
      by (simp add: truthy_id_def)
  qed
qed

lemma execute_open_shot [simplified]:
  "execute example_runtime (new_parser (example_vfs i)) (js ''open /projects/alpha-beta/attachments/shot.jpg'')
   = (\<lparr>res_output = (if i = 0 then js ''Opening: /projects/alpha-beta/attachments/shot.jpg''
                        else js ''Opening project: /projects/alpha-beta/attachments/shot.jpg''),
        res_error = False,
        res_navigation = (if i = 0 then Some (NavUrl (js ''/img/one.png'')) else Some (NavProject i)),
        res_exit = False\<rparr>,
      \<lparr>vfs = example_vfs i, cwd = js ''/'',
        history = [js ''open /projects/alpha-beta/attachments/shot.jpg'']\<rparr>)"
proof -
  have trimmed [simplified]: "trim (js ''open /projects/alpha-beta/attachments/shot.jpg'')
      = js ''open /projects/alpha-beta/attachments/shot.jpg''"
    by (simp add: trim_def isSpace_def)
  have toks [simplified]: "tokens (js ''open /projects/alpha-beta/attachments/shot.jpg'')
      = [js ''open'', js ''/projects/alpha-beta/attachments/shot.jpg'']"
    by (simp add: tokens.simps take_token.simps Let_def quote_def isSpace_def)
  show ?thesis
    by (simp add: execute_def trimmed Let_def containsShellFeatures_def shellFeatures_def
        startsWith_def parseCommand_def toks strip_quotes_def quote_def
        aliases_def commands_def new_parser_def open_shot [simplified] out_def)
qed

text \<open>
  Claim C9 (open-intent precedence) against the code.  For a file, \<^verbatim>\<open>cmdOpen\<close> asks for the
  project identifier first, then for the URL, then returns the content
  (\<open>cmdOpen_file\<close>).  Both \<^verbatim>\<open>getProjectIdFromPath\<close> and \<^verbatim>\<open>cmdOpen\<close> test the
  identifier for truth, and the number 0 is false: in the example tree built for a project
  with the identifier 0, opening the overview returns its content with no navigation, and
  opening an attachment navigates to its URL; built for the identifier 7, both navigate to
  project 7, the attachment in spite of its URL.
\<close>

theorem cmdOpen_project_id_zero:
  "res_navigation (fst (execute example_runtime (new_parser (example_vfs 0)) (js ''open /projects/alpha-beta/overview'')))
     = None
   \<and> res_output (fst (execute example_runtime (new_parser (example_vfs 0)) (js ''open /projects/alpha-beta/overview'')))
     = formatProjectOverview (example_project 0)
   \<and> res_navigation (fst (execute example_runtime (new_parser (example_vfs 0))
         (js ''open /projects/alpha-beta/attachments/shot.jpg'')))
     = Some (NavUrl (js ''/img/one.png''))
   \<and> res_navigation (fst (execute example_runtime (new_parser (example_vfs 7)) (js ''open /projects/alpha-beta/overview'')))
     = Some (NavProject 7)
   \<and> res_navigation (fst (execute example_runtime (new_parser (example_vfs 7))
         (js ''open /projects/alpha-beta/attachments/shot.jpg'')))
     = Some (NavProject 7)"
  by (simp add: execute_open_overview execute_open_shot)

end
